theory Spec2Isabelle
  imports Complex_Main
begin

section \<open>E-commerce sample data generator (src/data/generate_sample_data.py)\<close>

text \<open>
  The program draws every value from two process-wide random generators (Python's
  \<^verbatim>\<open>random\<close> and NumPy's \<^verbatim>\<open>np.random\<close>), both seeded once. The
  embedding makes that state explicit: each generator is a tape of raw draws that the
  sampling functions consume from the front and return updated. A tape that has been
  read to its end keeps yielding 0, so every sampling function is total.

  Python floats are embedded as exact rationals: the binary rounding of IEEE-754
  doubles is not part of the embedding.
\<close>

subsection \<open>Exceptions, random state, library samplers\<close>

datatype error = IndexError | KeyError | ValueError | OSError

type_synonym float = rat

record rng =
  py_tape :: "nat list"
  np_tape :: "nat list"

definition py_draw :: "rng \<Rightarrow> nat \<times> rng" where
  "py_draw s = (case py_tape s of [] \<Rightarrow> (0, s) | r # t \<Rightarrow> (r, s\<lparr>py_tape := t\<rparr>))"

definition np_draw :: "rng \<Rightarrow> nat \<times> rng" where
  "np_draw s = (case np_tape s of [] \<Rightarrow> (0, s) | r # t \<Rightarrow> (r, s\<lparr>np_tape := t\<rparr>))"

text \<open>A raw draw as a float in [0, 1): a multiple of 2^-53, as \<^verbatim>\<open>random.random()\<close>
  and \<^verbatim>\<open>np.random.random()\<close> return.\<close>

definition unit_float :: "nat \<Rightarrow> float" where
  "unit_float r = of_nat (r mod 2 ^ 53) / 2 ^ 53"

text \<open>\<^verbatim>\<open>random.random()\<close>\<close>

definition py_random :: "rng \<Rightarrow> float \<times> rng" where
  "py_random s = (case py_draw s of (r, s') \<Rightarrow> (unit_float r, s'))"

text \<open>\<^verbatim>\<open>random.uniform(a, b)\<close> is \<^verbatim>\<open>a + (b - a) * random()\<close>.\<close>

definition py_uniform :: "float \<Rightarrow> float \<Rightarrow> rng \<Rightarrow> float \<times> rng" where
  "py_uniform a b s = (case py_random s of (u, s') \<Rightarrow> (a + (b - a) * u, s'))"

text \<open>\<^verbatim>\<open>random.randint(a, b)\<close>, both ends included; an empty range raises.\<close>

definition py_randint :: "int \<Rightarrow> int \<Rightarrow> rng \<Rightarrow> error + (int \<times> rng)" where
  "py_randint a b s =
     (if b < a then Inl ValueError
      else case py_draw s of (r, s') \<Rightarrow> Inr (a + int (r mod nat (b - a + 1)), s'))"

text \<open>\<^verbatim>\<open>random.choice(seq)\<close>; an empty sequence raises IndexError.\<close>

definition py_choice :: "'a list \<Rightarrow> rng \<Rightarrow> error + ('a \<times> rng)" where
  "py_choice xs s =
     (if xs = [] then Inl IndexError
      else case py_draw s of (r, s') \<Rightarrow> Inr (xs ! (r mod length xs), s'))"

text \<open>\<^verbatim>\<open>round(x, 2)\<close>: to the nearest multiple of 0.01, a tie going to the even one.\<close>

definition round_half_even :: "rat \<Rightarrow> int" where
  "round_half_even y =
     (let f = \<lfloor>y\<rfloor>; d = y - of_int f
      in if d < 1 / 2 then f
         else if 1 / 2 < d then f + 1
         else if even f then f else f + 1)"

definition round2 :: "float \<Rightarrow> float" where
  "round2 x = of_int (round_half_even (x * 100)) / 100"

text \<open>\<^verbatim>\<open>np.random.random(n)\<close>: n floats in [0, 1).\<close>

fun np_random_sample :: "nat \<Rightarrow> rng \<Rightarrow> float list \<times> rng" where
  "np_random_sample 0 s = ([], s)"
| "np_random_sample (Suc n) s =
     (case np_draw s of (r, s1) \<Rightarrow>
        case np_random_sample n s1 of (us, s2) \<Rightarrow> (unit_float r # us, s2))"

text \<open>
  \<^verbatim>\<open>np.random.exponential(scale, size)\<close>. The standard exponential variate
  of a raw draw is computed inside NumPy; it is the parameter \<open>std\<close> here.
\<close>

fun np_exponential :: "(nat \<Rightarrow> float) \<Rightarrow> float \<Rightarrow> nat \<Rightarrow> rng \<Rightarrow> float list \<times> rng" where
  "np_exponential std scale 0 s = ([], s)"
| "np_exponential std scale (Suc n) s =
     (case np_draw s of (r, s1) \<Rightarrow>
        case np_exponential std scale n s1 of (ws, s2) \<Rightarrow> (scale * std r # ws, s2))"

text \<open>
  \<^verbatim>\<open>np.random.choice(a, size)\<close> without weights: one uniform index per sample.
  NumPy raises ValueError for a negative size and for an empty population when samples
  are asked for.
\<close>

fun np_choice_n :: "'a list \<Rightarrow> nat \<Rightarrow> rng \<Rightarrow> 'a list \<times> rng" where
  "np_choice_n a 0 s = ([], s)"
| "np_choice_n a (Suc n) s =
     (case np_draw s of (r, s1) \<Rightarrow>
        case np_choice_n a n s1 of (xs, s2) \<Rightarrow> (a ! (r mod length a) # xs, s2))"

definition np_choice :: "'a list \<Rightarrow> int \<Rightarrow> rng \<Rightarrow> error + ('a list \<times> rng)" where
  "np_choice a sz s =
     (if sz < 0 then Inl ValueError
      else if a = [] \<and> sz \<noteq> 0 then Inl ValueError
      else Inr (np_choice_n a (nat sz) s))"

text \<open>
  \<^verbatim>\<open>np.random.choice(a, size, p=p)\<close>. NumPy checks that \<open>p\<close> has one entry per
  element, none negative, and that it sums to 1 within sqrt(eps) = 2^-26; then it
  draws u in [0, 1) and takes \<^verbatim>\<open>cdf.searchsorted(u, side='right')\<close> on the
  normalised cumulative sums.
\<close>

definition valid_p :: "nat \<Rightarrow> float list \<Rightarrow> bool" where
  "valid_p n p \<longleftrightarrow>
     length p = n \<and> list_all (\<lambda>x. 0 \<le> x) p \<and> \<bar>sum_list p - 1\<bar> \<le> 1 / 2 ^ 26"

fun cumsum :: "float \<Rightarrow> float list \<Rightarrow> float list" where
  "cumsum acc [] = []"
| "cumsum acc (x # xs) = (acc + x) # cumsum (acc + x) xs"

definition searchsorted_right :: "float list \<Rightarrow> float \<Rightarrow> nat" where
  "searchsorted_right cdf u = length (filter (\<lambda>c. c \<le> u) cdf)"

definition weighted_index :: "float list \<Rightarrow> float \<Rightarrow> nat" where
  "weighted_index p u =
     (let cdf = cumsum 0 p
      in searchsorted_right (map (\<lambda>c. c / last cdf) cdf) u)"

definition np_choice_p1 :: "'a list \<Rightarrow> float list \<Rightarrow> rng \<Rightarrow> error + ('a \<times> rng)" where
  "np_choice_p1 a p s =
     (if a = [] then Inl ValueError
      else if \<not> valid_p (length a) p then Inl ValueError
      else case np_draw s of (r, s') \<Rightarrow> Inr (a ! weighted_index p (unit_float r), s'))"

fun np_choice_pn :: "'a list \<Rightarrow> float list \<Rightarrow> nat \<Rightarrow> rng \<Rightarrow> 'a list \<times> rng" where
  "np_choice_pn a p 0 s = ([], s)"
| "np_choice_pn a p (Suc n) s =
     (case np_draw s of (r, s1) \<Rightarrow>
        case np_choice_pn a p n s1 of (xs, s2) \<Rightarrow>
          (a ! weighted_index p (unit_float r) # xs, s2))"

definition np_choice_p :: "'a list \<Rightarrow> int \<Rightarrow> float list \<Rightarrow> rng \<Rightarrow> error + ('a list \<times> rng)" where
  "np_choice_p a sz p s =
     (if sz < 0 then Inl ValueError
      else if a = [] \<and> sz \<noteq> 0 then Inl ValueError
      else if \<not> valid_p (length a) p then Inl ValueError
      else Inr (np_choice_pn a p (nat sz) s))"

text \<open>
  \<^verbatim>\<open>DataFrame.sample(n)\<close>: n rows without replacement, the indices drawn from
  NumPy's generator; asking for more rows than there are raises ValueError.
\<close>

fun sample_indices :: "nat \<Rightarrow> nat list \<Rightarrow> rng \<Rightarrow> nat list \<times> rng" where
  "sample_indices 0 pool s = ([], s)"
| "sample_indices (Suc n) pool s =
     (if pool = [] then ([], s)
      else case np_draw s of (r, s1) \<Rightarrow>
        let k = r mod length pool
        in case sample_indices n (take k pool @ drop (Suc k) pool) s1 of
             (rest, s2) \<Rightarrow> (pool ! k # rest, s2))"

definition df_sample :: "nat \<Rightarrow> 'a list \<Rightarrow> rng \<Rightarrow> error + ('a list \<times> rng)" where
  "df_sample n rws s =
     (if length rws < n then Inl ValueError
      else case sample_indices n [0..<length rws] s of
             (idx, s') \<Rightarrow> Inr (map (\<lambda>i. rws ! i) idx, s'))"

subsection \<open>Identifier formatting\<close>

text \<open>\<^verbatim>\<open>f'{i:05d}'\<close>: the decimal digits of i, padded with zeros on the left to
  the given width (longer numbers are not cut).\<close>

definition digit_char :: "nat \<Rightarrow> char" where
  "digit_char d = char_of (48 + d)"

fun str_nat :: "nat \<Rightarrow> string" where
  "str_nat n = (if n < 10 then [digit_char n] else str_nat (n div 10) @ [digit_char (n mod 10)])"

declare str_nat.simps [simp del]

definition zero_pad :: "nat \<Rightarrow> nat \<Rightarrow> string" where
  "zero_pad w i = replicate (w - length (str_nat i)) (CHR ''0'') @ str_nat i"

subsection \<open>Tables\<close>

datatype datetime = DatetimePlus (base_year: nat) (base_month: nat) (base_day: nat) (plus_minutes: int)

record customer =
  customer_id :: string
  registration_date :: datetime
  country :: string
  segment :: string

record product =
  product_id :: string
  product_name :: string
  category :: string
  price :: float
  cost :: float

record transaction =
  transaction_id :: string
  txn_customer_id :: string
  txn_product_id :: string
  transaction_date :: datetime
  quantity :: int
  unit_price :: float
  discount_pct :: float
  total_amount :: float

text \<open>A DataFrame of any schema: column labels and rows of cells; \<open>NaN\<close> is the
  missing value.\<close>

datatype cell = NaN | StrV string | IntV int | FltV float | DateV datetime

record dataframe =
  columns :: "string list"
  rows :: "cell list list"

text \<open>\<^verbatim>\<open>pd.DataFrame({...})\<close> from a dict of columns keeps its columns when there
  are no rows; \<^verbatim>\<open>pd.DataFrame(list_of_dicts)\<close> of an empty list has no columns.\<close>

definition customers_frame :: "customer list \<Rightarrow> dataframe" where
  "customers_frame cs =
     \<lparr>columns = [''customer_id'', ''registration_date'', ''country'', ''segment''],
      rows = map (\<lambda>c. [StrV (customer_id c), DateV (registration_date c),
                        StrV (country c), StrV (segment c)]) cs\<rparr>"

definition products_frame :: "product list \<Rightarrow> dataframe" where
  "products_frame ps =
     (if ps = [] then \<lparr>columns = [], rows = []\<rparr>
      else \<lparr>columns = [''product_id'', ''product_name'', ''category'', ''price'', ''cost''],
            rows = map (\<lambda>p. [StrV (product_id p), StrV (product_name p), StrV (category p),
                              FltV (price p), FltV (cost p)]) ps\<rparr>)"

definition transactions_frame :: "transaction list \<Rightarrow> dataframe" where
  "transactions_frame ts =
     (if ts = [] then \<lparr>columns = [], rows = []\<rparr>
      else \<lparr>columns = [''transaction_id'', ''customer_id'', ''product_id'', ''transaction_date'',
                       ''quantity'', ''unit_price'', ''discount_pct'', ''total_amount''],
            rows = map (\<lambda>t. [StrV (transaction_id t), StrV (txn_customer_id t),
                              StrV (txn_product_id t), DateV (transaction_date t),
                              IntV (quantity t), FltV (unit_price t), FltV (discount_pct t),
                              FltV (total_amount t)]) ts\<rparr>)"

subsection \<open>The generator object\<close>

text \<open>
  \<^verbatim>\<open>EcommerceDataGenerator.__init__\<close> stores the three counts as given. Its
  result is returned as a sum so that a raised exception would be a value; the source has
  no check and no \<^verbatim>\<open>raise\<close>. The category list and the price table are the
  same constants in every instance.
\<close>

record generator =
  n_customers :: int
  n_products :: int
  n_transactions :: int

definition EcommerceDataGenerator :: "int \<Rightarrow> int \<Rightarrow> int \<Rightarrow> error + generator" where
  "EcommerceDataGenerator nc np nt =
     Inr \<lparr>n_customers = nc, n_products = np, n_transactions = nt\<rparr>"

definition categories :: "string list" where
  "categories = [''Electronics'', ''Clothing'', ''Home & Garden'', ''Sports'',
                 ''Books'', ''Beauty'', ''Toys'', ''Food & Beverage'']"

definition price_ranges :: "(string \<times> int \<times> int) list" where
  "price_ranges =
     [(''Electronics'', (50, 2000)),
      (''Clothing'', (15, 200)),
      (''Home & Garden'', (20, 500)),
      (''Sports'', (25, 400)),
      (''Books'', (10, 50)),
      (''Beauty'', (15, 150)),
      (''Toys'', (10, 100)),
      (''Food & Beverage'', (5, 80))]"

text \<open>\<^verbatim>\<open>range(n)\<close> is empty for n \<le> 0.\<close>

definition range_py :: "int \<Rightarrow> nat list" where
  "range_py n = [0..<nat n]"

subsection \<open>generate_customers\<close>

definition countries :: "string list" where
  "countries = [''USA'', ''UK'', ''Germany'', ''France'', ''Canada'', ''Australia'']"

definition customer_segments :: "string list" where
  "customer_segments = [''New'', ''Regular'', ''VIP'']"

text \<open>The list comprehension of registration dates: one \<^verbatim>\<open>randint(0, 700)\<close> per
  index of the range.\<close>

fun registration_dates :: "nat list \<Rightarrow> rng \<Rightarrow> error + (datetime list \<times> rng)" where
  "registration_dates [] s = Inr ([], s)"
| "registration_dates (i # is) s =
     (case py_randint 0 700 s of
        Inl e \<Rightarrow> Inl e
      | Inr (days, s1) \<Rightarrow>
          (case registration_dates is s1 of
             Inl e \<Rightarrow> Inl e
           | Inr (ds, s2) \<Rightarrow> Inr (DatetimePlus 2022 1 1 (days * 1440) # ds, s2)))"

text \<open>The four columns are built one after the other and put side by side; pandas
  raises ValueError when their lengths differ.\<close>

definition generate_customers :: "generator \<Rightarrow> rng \<Rightarrow> error + (customer list \<times> rng)" where
  "generate_customers g s =
     (let ids = map (\<lambda>i. ''CUST_'' @ zero_pad 5 i) (range_py (n_customers g))
      in case registration_dates (range_py (n_customers g)) s of
           Inl e \<Rightarrow> Inl e
         | Inr (dates, s1) \<Rightarrow>
       (case np_choice countries (n_customers g) s1 of
           Inl e \<Rightarrow> Inl e
         | Inr (cs, s2) \<Rightarrow>
       (case np_choice_p customer_segments (n_customers g) [2 / 5, 9 / 20, 3 / 20] s2 of
           Inl e \<Rightarrow> Inl e
         | Inr (sg, s3) \<Rightarrow>
           if length dates = length ids \<and> length cs = length ids \<and> length sg = length ids
           then Inr (map (\<lambda>(i, d, c, g).
                       \<lparr>customer_id = i, registration_date = d, country = c, segment = g\<rparr>)
                     (zip ids (zip dates (zip cs sg))), s3)
           else Inl ValueError)))"

subsection \<open>generate_products\<close>

definition product_row :: "nat \<Rightarrow> rng \<Rightarrow> error + (product \<times> rng)" where
  "product_row i s =
     (case py_choice categories s of
        Inl e \<Rightarrow> Inl e
      | Inr (cat, s1) \<Rightarrow>
     (case map_of price_ranges cat of
        None \<Rightarrow> Inl KeyError
      | Some (min_price, max_price) \<Rightarrow>
     (case py_uniform (of_int min_price) (of_int max_price) s1 of (p, s2) \<Rightarrow>
     (case py_uniform (of_int min_price * (2 / 5)) (of_int min_price * (7 / 10)) s2 of (c, s3) \<Rightarrow>
        Inr (\<lparr>product_id = ''PROD_'' @ zero_pad 5 i,
              product_name = cat @ '' Product '' @ str_nat i,
              category = cat,
              price = round2 p,
              cost = round2 c\<rparr>, s3)))))"

fun products_loop :: "nat list \<Rightarrow> rng \<Rightarrow> error + (product list \<times> rng)" where
  "products_loop [] s = Inr ([], s)"
| "products_loop (i # is) s =
     (case product_row i s of
        Inl e \<Rightarrow> Inl e
      | Inr (p, s1) \<Rightarrow>
          (case products_loop is s1 of
             Inl e \<Rightarrow> Inl e
           | Inr (ps, s2) \<Rightarrow> Inr (p # ps, s2)))"

definition generate_products :: "generator \<Rightarrow> rng \<Rightarrow> error + (product list \<times> rng)" where
  "generate_products g s = products_loop (range_py (n_products g)) s"

subsection \<open>generate_transactions\<close>

text \<open>
  The weights are one exponential variate per customer, divided by their sum. A zero sum
  makes the array NaN (or leaves it empty); \<open>None\<close> stands for that, and the weighted
  choice of the loop then raises ValueError.
\<close>

definition normalise :: "float list \<Rightarrow> float list option" where
  "normalise ws = (if sum_list ws = 0 then None else Some (map (\<lambda>w. w / sum_list ws) ws))"

definition discount_draw :: "rng \<Rightarrow> float \<times> rng" where
  "discount_draw s =
     (case py_random s of (u, s1) \<Rightarrow>
        if 1 / 5 < u then (0, s1)
        else case py_uniform (1 / 20) (3 / 10) s1 of (d, s2) \<Rightarrow> (round2 d, s2))"

definition transaction_row ::
  "customer list \<Rightarrow> product list \<Rightarrow> float list option \<Rightarrow> nat \<Rightarrow> rng \<Rightarrow> error + (transaction \<times> rng)" where
  "transaction_row customers products customer_weights i s =
     (case customer_weights of
        None \<Rightarrow> Inl ValueError
      | Some p \<Rightarrow>
     (case np_choice_p1 (map customer_id customers) p s of
        Inl e \<Rightarrow> Inl e
      | Inr (cid, s1) \<Rightarrow>
     (case df_sample 1 products s1 of
        Inl e \<Rightarrow> Inl e
      | Inr (smp, s2) \<Rightarrow>
     (case smp of
        [] \<Rightarrow> Inl IndexError
      | the_product # _ \<Rightarrow>
     (case py_randint 0 730 s2 of
        Inl e \<Rightarrow> Inl e
      | Inr (days, s3) \<Rightarrow>
     (case py_randint 0 23 s3 of
        Inl e \<Rightarrow> Inl e
      | Inr (hours, s4) \<Rightarrow>
     (case py_randint 0 59 s4 of
        Inl e \<Rightarrow> Inl e
      | Inr (minutes, s5) \<Rightarrow>
     (case np_choice_p1 [1, 2, 3, 4, 5] [7 / 10, 3 / 20, 2 / 25, 1 / 20, 1 / 50] s5 of
        Inl e \<Rightarrow> Inl e
      | Inr (qty, s6) \<Rightarrow>
     (case discount_draw s6 of (discount, s7) \<Rightarrow>
        let subtotal = price the_product * of_int qty;
            discount_amount = subtotal * discount
        in Inr (\<lparr>transaction_id = ''TXN_'' @ zero_pad 6 i,
                 txn_customer_id = cid,
                 txn_product_id = product_id the_product,
                 transaction_date = DatetimePlus 2023 1 1 (days * 1440 + hours * 60 + minutes),
                 quantity = qty,
                 unit_price = price the_product,
                 discount_pct = discount,
                 total_amount = round2 (subtotal - discount_amount)\<rparr>, s7))))))))))"

fun transactions_loop ::
  "customer list \<Rightarrow> product list \<Rightarrow> float list option \<Rightarrow> nat list \<Rightarrow> rng \<Rightarrow> error + (transaction list \<times> rng)" where
  "transactions_loop customers products w [] s = Inr ([], s)"
| "transactions_loop customers products w (i # is) s =
     (case transaction_row customers products w i s of
        Inl e \<Rightarrow> Inl e
      | Inr (t, s1) \<Rightarrow>
          (case transactions_loop customers products w is s1 of
             Inl e \<Rightarrow> Inl e
           | Inr (ts, s2) \<Rightarrow> Inr (t # ts, s2)))"

definition generate_transactions ::
  "(nat \<Rightarrow> float) \<Rightarrow> generator \<Rightarrow> customer list \<Rightarrow> product list \<Rightarrow> rng \<Rightarrow> error + (transaction list \<times> rng)" where
  "generate_transactions std g customers products s =
     (case np_exponential std (3 / 2) (length customers) s of (ws, s1) \<Rightarrow>
        transactions_loop customers products (normalise ws) (range_py (n_transactions g)) s1)"

subsection \<open>add_data_quality_issues\<close>

text \<open>
  DataFrames are mutable objects and \<^verbatim>\<open>df_copy.loc[mask, col] = np.nan\<close> writes
  into one. The objects live in a store, a variable holds a reference (an index into the
  store), \<^verbatim>\<open>df.copy()\<close>, \<^verbatim>\<open>sample\<close> and \<^verbatim>\<open>pd.concat\<close>
  allocate a new object at the end of the store, and the assignment through
  \<^verbatim>\<open>.loc\<close> replaces the object its reference points to.
\<close>

type_synonym ref = nat
type_synonym store = "dataframe list"

definition protected_columns :: "string list" where
  "protected_columns = [''transaction_id'', ''customer_id'', ''product_id'']"

text \<open>
  \<^verbatim>\<open>df_copy.loc[mask, col] = np.nan\<close>. An int64 column cannot hold NaN, so
  pandas first converts the whole column to float64, whatever the mask selects: every
  integer of the column comes back as a float. A column is int64 when the table has rows
  and every cell of the column is an integer. Then the cells the mask selects become
  missing. Columns of strings, floats and dates keep their other cells as they are.
\<close>

fun is_int :: "cell \<Rightarrow> bool" where
  "is_int (IntV q) = True"
| "is_int v = False"

fun upcast :: "cell \<Rightarrow> cell" where
  "upcast (IntV q) = FltV (of_int q)"
| "upcast v = v"

definition int64_column :: "cell list list \<Rightarrow> nat \<Rightarrow> bool" where
  "int64_column rws j \<longleftrightarrow> rws \<noteq> [] \<and> list_all (\<lambda>row. j < length row \<and> is_int (row ! j)) rws"

definition int64_columns :: "dataframe \<Rightarrow> bool list" where
  "int64_columns df = map (int64_column (rows df)) [0..<length (columns df)]"

text \<open>One row under the assignment: \<open>m\<close> is the row's entry of the mask, the labels
  come with the flag of an int64 column.\<close>

fun assign_cells :: "bool \<Rightarrow> string \<Rightarrow> (string \<times> bool) list \<Rightarrow> cell list \<Rightarrow> cell list" where
  "assign_cells m col ((c, int64) # cs) (v # vs) =
     (if c = col then (if m then NaN else if int64 then upcast v else v) else v)
       # assign_cells m col cs vs"
| "assign_cells m col cs vs = vs"

definition loc_assign_nan :: "bool list \<Rightarrow> string \<Rightarrow> dataframe \<Rightarrow> dataframe" where
  "loc_assign_nan msk col df =
     df\<lparr>rows := map (\<lambda>(m, row). assign_cells m col (zip (columns df) (int64_columns df)) row)
                     (zip msk (rows df))\<rparr>"

text \<open>The loop over \<^verbatim>\<open>df_copy.columns\<close>: one mask of fresh draws per column that
  is not protected.\<close>

fun missing_loop :: "string list \<Rightarrow> float \<Rightarrow> ref \<Rightarrow> store \<Rightarrow> rng \<Rightarrow> store \<times> rng" where
  "missing_loop [] missing_rate df_copy h s = (h, s)"
| "missing_loop (col # cols) missing_rate df_copy h s =
     (if col \<notin> set protected_columns
      then case np_random_sample (length (rows (h ! df_copy))) s of (us, s1) \<Rightarrow>
             missing_loop cols missing_rate df_copy
               (h[df_copy := loc_assign_nan (map (\<lambda>u. u < missing_rate) us) col (h ! df_copy)]) s1
      else missing_loop cols missing_rate df_copy h s)"

definition add_data_quality_issues ::
  "store \<Rightarrow> ref \<Rightarrow> float \<Rightarrow> rng \<Rightarrow> error + (ref \<times> store \<times> rng)" where
  "add_data_quality_issues h df missing_rate s =
     (let df_copy = length h;
          h1 = h @ [h ! df]
      in case missing_loop (columns (h1 ! df_copy)) missing_rate df_copy h1 s of (h2, s1) \<Rightarrow>
         let n_duplicates = nat \<lfloor>of_nat (length (rows (h2 ! df_copy))) * (1 / 100 :: rat)\<rfloor>
         in (case df_sample n_duplicates (rows (h2 ! df_copy)) s1 of
               Inl e \<Rightarrow> Inl e
             | Inr (dup_rows, s2) \<Rightarrow>
                 let duplicates = length h2;
                     h3 = h2 @ [\<lparr>columns = columns (h2 ! df_copy), rows = dup_rows\<rparr>];
                     result = length h3;
                     h4 = h3 @ [\<lparr>columns = columns (h3 ! df_copy),
                                  rows = rows (h3 ! df_copy) @ rows (h3 ! duplicates)\<rparr>]
                 in Inr (result, h4, s2)))"

subsection \<open>generate_all\<close>

text \<open>The file system: the directories that exist and the table each written file
  holds.\<close>

record filesystem =
  dirs :: "string set"
  files :: "string \<Rightarrow> dataframe option"

text \<open>The paths of the directories above a path: its proper prefixes that end before
  a separator.\<close>

fun parent_paths :: "string \<Rightarrow> string \<Rightarrow> string list" where
  "parent_paths pre [] = []"
| "parent_paths pre (c # cs) =
     (if c = CHR ''/'' \<and> pre \<noteq> [] then [pre] else []) @ parent_paths (pre @ [c]) cs"

text \<open>
  \<^verbatim>\<open>os.makedirs(d, exist_ok=True)\<close> creates the directory and the directories
  above it and accepts those that exist; it raises an OSError for the empty path and
  when the path or one above it is an existing file.
\<close>

definition makedirs :: "string \<Rightarrow> filesystem \<Rightarrow> error + filesystem" where
  "makedirs d fs =
     (if d = [] then Inl OSError
      else if list_ex (\<lambda>p. files fs p \<noteq> None) (d # parent_paths [] d) then Inl OSError
      else Inr (fs\<lparr>dirs := dirs fs \<union> set (d # parent_paths [] d)\<rparr>))"

text \<open>
  \<^verbatim>\<open>df.to_csv(f'{d}/name', index=False)\<close> opens the file for writing: an OSError
  when the directory does not exist or the path is a directory; an existing file is
  overwritten.
\<close>

definition to_csv :: "dataframe \<Rightarrow> string \<Rightarrow> string \<Rightarrow> filesystem \<Rightarrow> error + filesystem" where
  "to_csv df d name fs =
     (if d \<in> dirs fs \<and> d @ ''/'' @ name \<notin> dirs fs
      then Inr (fs\<lparr>files := (files fs)(d @ ''/'' @ name \<mapsto> df)\<rparr>)
      else Inl OSError)"

definition generate_all ::
  "(nat \<Rightarrow> float) \<Rightarrow> generator \<Rightarrow> string \<Rightarrow> string \<Rightarrow> store \<Rightarrow> filesystem \<Rightarrow> rng
     \<Rightarrow> error + (store \<times> filesystem \<times> rng)" where
  "generate_all std g output_dir clean_dir h fs s =
     (case makedirs output_dir fs of
        Inl e \<Rightarrow> Inl e
      | Inr fs1 \<Rightarrow>
     (case makedirs clean_dir fs1 of
        Inl e \<Rightarrow> Inl e
      | Inr fs2 \<Rightarrow>
     (case generate_customers g s of
        Inl e \<Rightarrow> Inl e
      | Inr (cs, s1) \<Rightarrow>
     (case generate_products g s1 of
        Inl e \<Rightarrow> Inl e
      | Inr (ps, s2) \<Rightarrow>
     (case generate_transactions std g cs ps s2 of
        Inl e \<Rightarrow> Inl e
      | Inr (ts, s3) \<Rightarrow>
     (let customers = length h;
          products = length h + 1;
          transactions = length h + 2;
          h1 = h @ [customers_frame cs, products_frame ps, transactions_frame ts]
      in case to_csv (h1 ! customers) clean_dir ''customers.csv'' fs2 of
        Inl e \<Rightarrow> Inl e
      | Inr fs3 \<Rightarrow>
     (case to_csv (h1 ! products) clean_dir ''products.csv'' fs3 of
        Inl e \<Rightarrow> Inl e
      | Inr fs4 \<Rightarrow>
     (case to_csv (h1 ! transactions) clean_dir ''transactions.csv'' fs4 of
        Inl e \<Rightarrow> Inl e
      | Inr fs5 \<Rightarrow>
     (case add_data_quality_issues h1 transactions (1 / 50) s3 of
        Inl e \<Rightarrow> Inl e
      | Inr (transactions_raw, h2, s4) \<Rightarrow>
     (case to_csv (h2 ! customers) output_dir ''customers_raw.csv'' fs5 of
        Inl e \<Rightarrow> Inl e
      | Inr fs6 \<Rightarrow>
     (case to_csv (h2 ! products) output_dir ''products_raw.csv'' fs6 of
        Inl e \<Rightarrow> Inl e
      | Inr fs7 \<Rightarrow>
     (case to_csv (h2 ! transactions_raw) output_dir ''transactions_raw.csv'' fs7 of
        Inl e \<Rightarrow> Inl e
      | Inr fs8 \<Rightarrow> Inr (h2, fs8, s4)))))))))))))"

subsection \<open>Predicates of the proofs\<close>

text \<open>The number a string of decimal digits denotes; used to show that formatted
  identifiers are distinct.\<close>

definition digits_value :: "string \<Rightarrow> nat" where
  "digits_value cs = foldl (\<lambda>a c. 10 * a + (of_char c - 48)) 0 cs"

text \<open>A product record within the ranges the price table gives for its category.\<close>

definition product_in_range :: "product \<Rightarrow> bool" where
  "product_in_range p \<longleftrightarrow>
     (case map_of price_ranges (category p) of
        None \<Rightarrow> False
      | Some (min_price, max_price) \<Rightarrow>
          of_int min_price \<le> price p \<and> price p \<le> of_int max_price \<and>
          (2 / 5) * of_int min_price \<le> cost p \<and> cost p \<le> (7 / 10) * of_int min_price \<and>
          0 < min_price)"

text \<open>The rows \<open>new\<close> are the rows \<open>old\<close> with some cells under labels that
  are not protected replaced by the missing value or, for an integer, by its float.\<close>

definition corrupted_from :: "string list \<Rightarrow> cell list list \<Rightarrow> cell list list \<Rightarrow> bool" where
  "corrupted_from cols old new \<longleftrightarrow>
     length new = length old \<and>
     (\<forall>i<length old. length (new ! i) = length (old ! i) \<and>
        (\<forall>j<length (old ! i). new ! i ! j = old ! i ! j \<or>
           ((new ! i ! j = NaN \<or> new ! i ! j = upcast (old ! i ! j)) \<and>
            j < length cols \<and> cols ! j \<notin> set protected_columns)))"

section \<open>Properties\<close>

subsection \<open>Identifiers and the customer generator\<close>

lemma of_char_digit_char: "d < 10 \<Longrightarrow> of_char (digit_char d) = (48 + d :: nat)"
  by (simp add: digit_char_def)

lemma digits_value_snoc: "digits_value (cs @ [c]) = 10 * digits_value cs + (of_char c - 48)"
  by (simp add: digits_value_def)

lemma digits_value_str_nat: "digits_value (str_nat n) = n"
proof (induction n rule: str_nat.induct)
  case (1 n)
  show ?case
  proof (cases "n < 10")
    case True
    then show ?thesis
      by (subst str_nat.simps) (simp add: digits_value_def of_char_digit_char)
  next
    case False
    with 1 have "digits_value (str_nat (n div 10)) = n div 10" by simp
    with False show ?thesis
      by (subst str_nat.simps) (simp add: digits_value_snoc of_char_digit_char)
  qed
qed

lemma digits_value_zeros: "digits_value (replicate k (CHR ''0'') @ cs) = digits_value cs"
proof -
  have "foldl (\<lambda>a c. 10 * a + (of_char c - 48)) (0::nat) (replicate k (CHR ''0'')) = 0"
    by (induction k) simp_all
  then show ?thesis by (simp add: digits_value_def)
qed

lemma digits_value_zero_pad: "digits_value (zero_pad w i) = i"
  by (simp add: zero_pad_def digits_value_zeros digits_value_str_nat)

lemma zero_pad_inj: "zero_pad w i = zero_pad w j \<Longrightarrow> i = j"
  by (metis digits_value_zero_pad)

lemma distinct_ids: "distinct (map (\<lambda>i. pre @ zero_pad w i) [0..<n])"
  by (auto simp: distinct_map inj_on_def dest: zero_pad_inj)

lemma unit_float_bounds: "0 \<le> unit_float r \<and> unit_float r < 1"
proof -
  have "r mod 2 ^ 53 < (2 ^ 53 :: nat)" by simp
  then have "(of_nat (r mod 2 ^ 53) :: rat) < of_nat (2 ^ 53)"
    unfolding of_nat_less_iff .
  then show ?thesis by (simp add: unit_float_def)
qed

lemma registration_dates_total:
  "\<exists>ds s'. registration_dates is s = Inr (ds, s') \<and> length ds = length is"
proof (induction "is" arbitrary: s)
  case Nil
  show ?case by simp
next
  case (Cons i "is")
  obtain r s1 where d: "py_draw s = (r, s1)" by (cases "py_draw s")
  from Cons [of s1] obtain ds s2 where "registration_dates is s1 = Inr (ds, s2)" "length ds = length is"
    by blast
  with d show ?case by (simp add: py_randint_def)
qed

lemma np_choice_n_length: "np_choice_n a n s = (xs, s') \<Longrightarrow> length xs = n"
  by (induction n arbitrary: s xs) (auto split: prod.splits)

lemma np_choice_pn_length: "np_choice_pn a p n s = (xs, s') \<Longrightarrow> length xs = n"
  by (induction n arbitrary: s xs) (auto split: prod.splits)

lemma valid_p_segments: "valid_p (length customer_segments) [2 / 5, 9 / 20, 3 / 20]"
  by (simp add: valid_p_def customer_segments_def)

lemma customer_id_zip:
  assumes "length ds = length ids" "length cs = length ids" "length sg = length ids"
  shows "map customer_id (map (\<lambda>(i, d, c, g).
            \<lparr>customer_id = i, registration_date = d, country = c, segment = g\<rparr>)
          (zip ids (zip ds (zip cs sg)))) = ids"
proof -
  have "map customer_id (map (\<lambda>(i, d, c, g).
            \<lparr>customer_id = i, registration_date = d, country = c, segment = g\<rparr>)
          (zip ids (zip ds (zip cs sg)))) = map fst (zip ids (zip ds (zip cs sg)))"
    by (simp add: case_prod_beta)
  also have "\<dots> = ids" using assms by (simp add: map_fst_zip)
  finally show ?thesis .
qed

lemma generate_customers_ids:
  assumes "0 \<le> n_customers g"
  shows "\<exists>cs s'. generate_customers g s = Inr (cs, s') \<and>
           map customer_id cs = map (\<lambda>i. ''CUST_'' @ zero_pad 5 i) [0..<nat (n_customers g)]"
proof -
  let ?n = "n_customers g"
  obtain ds s1 where ds: "registration_dates (range_py ?n) s = Inr (ds, s1)"
    "length ds = length (range_py ?n)"
    using registration_dates_total by blast
  obtain cs s2 where cs: "np_choice_n countries (nat ?n) s1 = (cs, s2)"
    by (cases "np_choice_n countries (nat ?n) s1")
  obtain sg s3 where sg: "np_choice_pn customer_segments [2 / 5, 9 / 20, 3 / 20] (nat ?n) s2 = (sg, s3)"
    by (cases "np_choice_pn customer_segments [2 / 5, 9 / 20, 3 / 20] (nat ?n) s2")
  have lc: "length cs = nat ?n" using np_choice_n_length [OF cs] .
  have ls: "length sg = nat ?n"
    using np_choice_pn_length [OF sg] .
  have ld: "length ds = nat ?n" using ds(2) by (simp add: range_py_def)
  have c1: "np_choice countries ?n s1 = Inr (cs, s2)"
    using assms cs by (simp add: np_choice_def countries_def)
  have c2: "np_choice_p customer_segments ?n [2 / 5, 9 / 20, 3 / 20] s2 = Inr (sg, s3)"
    proof -
    have "customer_segments \<noteq> []" by (simp add: customer_segments_def)
    then show ?thesis using assms sg valid_p_segments by (simp add: np_choice_p_def)
  qed
  show ?thesis
    using ds(1) c1 c2 lc ls ld
    by (simp add: generate_customers_def customer_id_zip range_py_def del: map_map)
qed


text \<open>
  Claim C7. For every N \<ge> 1 the customer generator returns, without raising, exactly N
  records whose identifiers are, in order, \<open>CUST_\<close> followed by the index 0, 1, ...,
  N - 1 zero-padded to five digits, and these N identifiers are pairwise distinct.
\<close>

theorem generate_customers_identifiers:
  assumes "1 \<le> n_customers g"
  shows "\<exists>cs s'. generate_customers g s = Inr (cs, s') \<and>
           length cs = nat (n_customers g) \<and>
           map customer_id cs = map (\<lambda>i. ''CUST_'' @ zero_pad 5 i) [0..<nat (n_customers g)] \<and>
           distinct (map customer_id cs)"
proof -
  from assms have "0 \<le> n_customers g" by simp
  from generate_customers_ids [OF this, of s] obtain cs s' where
    r: "generate_customers g s = Inr (cs, s')" and
    ids: "map customer_id cs = map (\<lambda>i. ''CUST_'' @ zero_pad 5 i) [0..<nat (n_customers g)]"
    by blast
  from ids have "length (map customer_id cs) = length [0..<nat (n_customers g)]"
    by (simp only: length_map)
  then have len: "length cs = nat (n_customers g)" by simp
  have "distinct (map customer_id cs)" unfolding ids by (rule distinct_ids)
  with r ids len show ?thesis by blast
qed

theorem generate_customers_identifiers_witness:
  "1 \<le> n_customers \<lparr>n_customers = 3, n_products = 0, n_transactions = 0\<rparr> \<and>
   (\<exists>cs s'. generate_customers \<lparr>n_customers = 3, n_products = 0, n_transactions = 0\<rparr>
               \<lparr>py_tape = [5, 700, 701], np_tape = [1, 8]\<rparr> = Inr (cs, s') \<and>
            length cs = 3 \<and>
            map customer_id cs = [''CUST_00000'', ''CUST_00001'', ''CUST_00002''] \<and>
            distinct (map customer_id cs))"
proof -
  let ?g = "\<lparr>n_customers = 3, n_products = 0, n_transactions = 0\<rparr>"
  have h: "1 \<le> n_customers ?g" by simp
  have n: "nat (n_customers ?g) = 3" by simp
  have z: "map (\<lambda>i. ''CUST_'' @ zero_pad 5 i) [0..<3] =
             [''CUST_00000'', ''CUST_00001'', ''CUST_00002'']"
    by code_simp
  from generate_customers_identifiers [OF h, of "\<lparr>py_tape = [5, 700, 701], np_tape = [1, 8]\<rparr>"]
  show ?thesis unfolding n z using h by blast
qed

subsection \<open>The product generator\<close>

lemma round_half_even_ge: "of_int a \<le> y \<Longrightarrow> a \<le> round_half_even y"
proof -
  assume "of_int a \<le> y"
  then have "a \<le> \<lfloor>y\<rfloor>" by (simp add: le_floor_iff)
  then show ?thesis by (simp add: round_half_even_def Let_def)
qed

lemma round_half_even_le: "y \<le> of_int b \<Longrightarrow> round_half_even y \<le> b"
proof -
  assume yb: "y \<le> of_int b"
  have fy: "of_int \<lfloor>y\<rfloor> \<le> y" by simp
  have fb: "\<lfloor>y\<rfloor> \<le> b" using yb by (simp add: floor_le_iff)
  show ?thesis
  proof (cases "y - of_int \<lfloor>y\<rfloor> < 1 / 2")
    case True
    then show ?thesis using fb by (simp add: round_half_even_def Let_def)
  next
    case False
    then have "of_int \<lfloor>y\<rfloor> < y" by simp
    then have "of_int \<lfloor>y\<rfloor> < (of_int b :: rat)" using yb by simp
    then have "\<lfloor>y\<rfloor> < b" by simp
    then show ?thesis by (simp add: round_half_even_def Let_def)
  qed
qed

lemma round2_bounds:
  assumes "of_int a / 100 \<le> x" "x \<le> of_int b / 100"
  shows "of_int a / 100 \<le> round2 x \<and> round2 x \<le> of_int b / 100"
proof -
  from assms have "of_int a \<le> x * 100" "x * 100 \<le> of_int b" by (simp_all add: field_simps)
  then have "a \<le> round_half_even (x * 100)" "round_half_even (x * 100) \<le> b"
    by (simp_all add: round_half_even_ge round_half_even_le)
  then have "(of_int a :: rat) \<le> of_int (round_half_even (x * 100))"
    "(of_int (round_half_even (x * 100)) :: rat) \<le> of_int b"
    by simp_all
  then show ?thesis by (simp add: round2_def divide_right_mono)
qed

lemma py_uniform_bounds:
  assumes "a \<le> b" "py_uniform a b s = (x, s')"
  shows "a \<le> x \<and> x \<le> b"
proof -
  obtain r s1 where d: "py_draw s = (r, s1)" by (cases "py_draw s")
  let ?u = "unit_float r"
  have u: "0 \<le> ?u" "?u < 1" using unit_float_bounds [of r] by simp_all
  from assms(2) d have x: "x = a + (b - a) * ?u" by (simp add: py_uniform_def py_random_def)
  have "0 \<le> (b - a) * ?u" using assms(1) u(1) by simp
  moreover have "(b - a) * ?u \<le> (b - a) * 1"
    using assms(1) u(2) by (intro mult_left_mono) simp_all
  ultimately show ?thesis unfolding x by simp
qed

lemma price_ranges_all:
  "list_all (\<lambda>c. case map_of price_ranges c of None \<Rightarrow> False
                     | Some (mn, mx) \<Rightarrow> 0 < mn \<and> mn \<le> mx) categories"
  by (simp add: categories_def price_ranges_def)

lemma price_ranges_categories:
  assumes "c \<in> set categories"
  shows "\<exists>mn mx. map_of price_ranges c = Some (mn, mx) \<and> 0 < mn \<and> mn \<le> mx"
proof -
  from price_ranges_all assms
  have "case map_of price_ranges c of None \<Rightarrow> False | Some (mn, mx) \<Rightarrow> 0 < mn \<and> mn \<le> mx"
    by (simp add: list_all_iff)
  then show ?thesis by (cases "map_of price_ranges c") auto
qed

lemma product_row_total:
  "\<exists>p s'. product_row i s = Inr (p, s') \<and> product_in_range p \<and> product_id p = ''PROD_'' @ zero_pad 5 i"
proof -
  obtain r s1 where d: "py_draw s = (r, s1)" by (cases "py_draw s")
  let ?c = "categories ! (r mod length categories)"
  have ne: "categories \<noteq> []" by (simp add: categories_def)
  then have "?c \<in> set categories" by simp
  from price_ranges_categories [OF this] obtain mn mx where
    m: "map_of price_ranges ?c = Some (mn, mx)" "0 < mn" "mn \<le> mx" by blast
  obtain p s2 where p: "py_uniform (of_int mn) (of_int mx) s1 = (p, s2)"
    by (cases "py_uniform (of_int mn) (of_int mx) s1")
  obtain c s3 where c: "py_uniform (of_int mn * (2 / 5)) (of_int mn * (7 / 10)) s2 = (c, s3)"
    by (cases "py_uniform (of_int mn * (2 / 5)) (of_int mn * (7 / 10)) s2")
  have pb: "of_int mn \<le> p \<and> p \<le> of_int mx"
    using py_uniform_bounds [OF _ p] m(3) by simp
  have cb: "of_int mn * (2 / 5) \<le> c \<and> c \<le> of_int mn * (7 / 10)"
    using py_uniform_bounds [OF _ c] m(2) by simp
  have "of_int (100 * mn) / 100 \<le> p" "p \<le> of_int (100 * mx) / 100" using pb by simp_all
  from round2_bounds [OF this] have rp: "of_int mn \<le> round2 p \<and> round2 p \<le> of_int mx" by simp
  have "of_int (40 * mn) / 100 \<le> c" "c \<le> of_int (70 * mn) / 100" using cb by simp_all
  from round2_bounds [OF this]
  have rc: "(2 / 5) * of_int mn \<le> round2 c \<and> round2 c \<le> (7 / 10) * of_int mn" by simp
  have "product_row i s = Inr (\<lparr>product_id = ''PROD_'' @ zero_pad 5 i,
              product_name = ?c @ '' Product '' @ str_nat i,
              category = ?c, price = round2 p, cost = round2 c\<rparr>, s3)"
    using d ne m(1) p c by (simp add: product_row_def py_choice_def)
  moreover have "product_in_range \<lparr>product_id = ''PROD_'' @ zero_pad 5 i,
              product_name = ?c @ '' Product '' @ str_nat i,
              category = ?c, price = round2 p, cost = round2 c\<rparr>"
    using m rp rc by (simp add: product_in_range_def)
  ultimately show ?thesis by simp
qed

lemma products_loop_total:
  "\<exists>ps s'. products_loop is s = Inr (ps, s') \<and> length ps = length is \<and>
     list_all product_in_range ps \<and> map product_id ps = map (\<lambda>i. ''PROD_'' @ zero_pad 5 i) is"
proof (induction "is" arbitrary: s)
  case Nil
  show ?case by simp
next
  case (Cons i "is")
  from product_row_total [of i s] obtain p s1 where
    p: "product_row i s = Inr (p, s1)" "product_in_range p" "product_id p = ''PROD_'' @ zero_pad 5 i"
    by blast
  from Cons [of s1] obtain ps s2 where
    ps: "products_loop is s1 = Inr (ps, s2)" "length ps = length is" "list_all product_in_range ps"
      "map product_id ps = map (\<lambda>i. ''PROD_'' @ zero_pad 5 i) is"
    by blast
  from p ps show ?case by simp
qed

lemma generate_products_total:
  "\<exists>ps s'. generate_products g s = Inr (ps, s') \<and> length ps = nat (n_products g) \<and>
     list_all product_in_range ps"
proof -
  from products_loop_total [of "range_py (n_products g)" s] obtain ps s' where
    "products_loop (range_py (n_products g)) s = Inr (ps, s')"
    "length ps = length (range_py (n_products g))" "list_all product_in_range ps"
    by blast
  then show ?thesis by (simp add: generate_products_def range_py_def)
qed

lemma product_in_range_cost_less: "product_in_range p \<Longrightarrow> cost p < price p"
  by (auto simp: product_in_range_def split: option.splits)

lemma product_in_range_bounds:
  assumes "product_in_range p"
  shows "\<exists>min_price max_price.
           map_of price_ranges (category p) = Some (min_price, max_price) \<and>
           of_int min_price \<le> price p \<and> price p \<le> of_int max_price \<and>
           (2 / 5) * of_int min_price \<le> cost p \<and> cost p \<le> (7 / 10) * of_int min_price"
  using assms by (auto simp: product_in_range_def split: option.splits)

text \<open>
  Claim C8. For every product count the product generator returns without raising, one
  record per index, and every record's price lies between the minimum and the maximum
  price of the record's category and its cost between 0.4 and 0.7 times that minimum,
  both after the rounding to two decimals.
\<close>

theorem generate_products_in_range:
  "\<exists>ps s'. generate_products g s = Inr (ps, s') \<and> length ps = nat (n_products g) \<and>
     (\<forall>p\<in>set ps. \<exists>min_price max_price.
         map_of price_ranges (category p) = Some (min_price, max_price) \<and>
         of_int min_price \<le> price p \<and> price p \<le> of_int max_price \<and>
         (2 / 5) * of_int min_price \<le> cost p \<and> cost p \<le> (7 / 10) * of_int min_price)"
proof -
  from generate_products_total [of g s] obtain ps s' where
    r: "generate_products g s = Inr (ps, s')" "length ps = nat (n_products g)"
    and a: "list_all product_in_range ps"
    by blast
  from a have "\<forall>p\<in>set ps. product_in_range p" by (simp add: list_all_iff)
  with r show ?thesis using product_in_range_bounds by blast
qed

lemma floor_divide_numeral_rat:
  "\<lfloor>numeral a / numeral b :: rat\<rfloor> = numeral a div numeral b"
  using floor_divide_of_int_eq [of "numeral a" "numeral b", where ?'a = rat] by simp

lemmas sampler_defs = py_draw_def np_draw_def py_random_def py_uniform_def py_randint_def
  py_choice_def unit_float_def round2_def round_half_even_def Let_def floor_divide_numeral_rat

lemma products_example:
  "generate_products \<lparr>n_customers = 0, n_products = 2, n_transactions = 0\<rparr>
      \<lparr>py_tape = [3, 2 ^ 52, 7, 2 ^ 53 - 1, 5, 11], np_tape = []\<rparr> =
   Inr ([\<lparr>product_id = ''PROD_00000'', product_name = ''Sports Product 0'',
           category = ''Sports'', price = 425 / 2, cost = 10\<rparr>,
         \<lparr>product_id = ''PROD_00001'', product_name = ''Food & Beverage Product 1'',
           category = ''Food & Beverage'', price = 5, cost = 2\<rparr>],
        \<lparr>py_tape = [], np_tape = []\<rparr>)"
proof -
  have z: "zero_pad 5 0 = ''00000''" "zero_pad 5 (Suc 0) = ''00001''" "str_nat 0 = ''0''"
    "str_nat (Suc 0) = ''1''"
    by code_simp+
  show ?thesis
    by (simp add: generate_products_def range_py_def upt_rec product_row_def sampler_defs
        categories_def price_ranges_def z)
qed

theorem generate_products_in_range_witness:
  "\<exists>ps s'. generate_products \<lparr>n_customers = 0, n_products = 2, n_transactions = 0\<rparr>
      \<lparr>py_tape = [3, 2 ^ 52, 7, 2 ^ 53 - 1, 5, 11], np_tape = []\<rparr> = Inr (ps, s') \<and>
     map price ps = [425 / 2, 5] \<and> map cost ps = [10, 2] \<and>
     (\<forall>p\<in>set ps. \<exists>min_price max_price.
         map_of price_ranges (category p) = Some (min_price, max_price) \<and>
         of_int min_price \<le> price p \<and> price p \<le> of_int max_price \<and>
         (2 / 5) * of_int min_price \<le> cost p \<and> cost p \<le> (7 / 10) * of_int min_price)"
  using generate_products_in_range
    [of "\<lparr>n_customers = 0, n_products = 2, n_transactions = 0\<rparr>"
        "\<lparr>py_tape = [3, 2 ^ 52, 7, 2 ^ 53 - 1, 5, 11], np_tape = []\<rparr>"]
  unfolding products_example by simp

text \<open>
  Claim C2, as amended. The claim says that some run yields a product whose cost is not
  below its price. No run does: the cost is at most 0.7 times the category's minimum
  price, the price is at least that minimum, and the minimum is positive, so in every
  record of every run the cost is strictly below the price.
\<close>

theorem generate_products_cost_below_price:
  assumes "generate_products g s = Inr (ps, s')" "p \<in> set ps"
  shows "cost p < price p"
proof -
  from generate_products_total [of g s] assms(1) have "list_all product_in_range ps" by auto
  with assms(2) have "product_in_range p" by (simp add: list_all_iff)
  then show ?thesis by (rule product_in_range_cost_less)
qed

theorem generate_products_cost_below_price_witness:
  "generate_products \<lparr>n_customers = 0, n_products = 2, n_transactions = 0\<rparr>
      \<lparr>py_tape = [3, 2 ^ 52, 7, 2 ^ 53 - 1, 5, 11], np_tape = []\<rparr> =
   Inr ([\<lparr>product_id = ''PROD_00000'', product_name = ''Sports Product 0'',
           category = ''Sports'', price = 425 / 2, cost = 10\<rparr>,
         \<lparr>product_id = ''PROD_00001'', product_name = ''Food & Beverage Product 1'',
           category = ''Food & Beverage'', price = 5, cost = 2\<rparr>],
        \<lparr>py_tape = [], np_tape = []\<rparr>) \<and>
   cost \<lparr>product_id = ''PROD_00001'', product_name = ''Food & Beverage Product 1'',
           category = ''Food & Beverage'', price = 5, cost = 2\<rparr>
   < price \<lparr>product_id = ''PROD_00001'', product_name = ''Food & Beverage Product 1'',
           category = ''Food & Beverage'', price = 5, cost = (2::rat)\<rparr>"
  using generate_products_cost_below_price [OF products_example,
      of "\<lparr>product_id = ''PROD_00001'', product_name = ''Food & Beverage Product 1'',
           category = ''Food & Beverage'', price = 5, cost = 2\<rparr>"]
    products_example
  by simp

text \<open>Claim C2 as stated fails: there is no run, count and record with cost not below
  price.\<close>

theorem cost_not_below_price_counterexample:
  "\<not> (\<exists>g s ps s' p. generate_products g s = Inr (ps, s') \<and> p \<in> set ps \<and> \<not> cost p < price p)"
proof
  assume "\<exists>g s ps s' p. generate_products g s = Inr (ps, s') \<and> p \<in> set ps \<and> \<not> cost p < price p"
  then obtain g s ps s' p where
    r: "generate_products g s = Inr (ps, s')" and p: "p \<in> set ps" and n: "\<not> cost p < price p"
    by blast
  from generate_products_total [of g s] r have "list_all product_in_range ps" by auto
  with p have "product_in_range p" by (simp add: list_all_iff)
  with n show False using product_in_range_cost_less by blast
qed

subsection \<open>Library samplers\<close>

lemma np_exponential_props:
  "np_exponential std scale n s = (ws, s') \<Longrightarrow>
     length ws = n \<and> (\<forall>w\<in>set ws. \<exists>r. w = scale * std r)"
proof (induction n arbitrary: s ws s')
  case 0
  then show ?case by simp
next
  case (Suc n)
  obtain r s1 where d: "np_draw s = (r, s1)" by (cases "np_draw s")
  obtain vs s2 where v: "np_exponential std scale n s1 = (vs, s2)"
    by (cases "np_exponential std scale n s1")
  from Suc.prems d v have ws: "ws = scale * std r # vs" by simp
  from Suc.IH [OF v] show ?case unfolding ws by auto
qed

lemma sum_list_pos_rat:
  fixes ws :: "rat list"
  assumes "ws \<noteq> []" "\<forall>w\<in>set ws. 0 < w"
  shows "0 < sum_list ws"
  using assms by (induction ws) (auto intro: add_pos_nonneg sum_list_nonneg less_imp_le)

lemma normalise_valid:
  assumes "list_all (\<lambda>w. 0 \<le> w) ws" "0 < sum_list ws"
  shows "\<exists>p. normalise ws = Some p \<and> valid_p (length ws) p"
proof -
  let ?t = "sum_list ws"
  let ?p = "map (\<lambda>w. w / ?t) ws"
  have "sum_list (map (\<lambda>w. w / c) ws) = sum_list ws / c" for c
    by (induction ws) (simp_all add: add_divide_distrib)
  then have s: "sum_list ?p = 1" using assms(2) by simp
  have nn: "list_all (\<lambda>x. 0 \<le> x) ?p"
    using assms by (auto simp: list_all_iff intro: divide_nonneg_pos)
  have "normalise ws = Some ?p" using assms(2) by (simp add: normalise_def)
  moreover have "valid_p (length ws) ?p" using s nn by (simp add: valid_p_def)
  ultimately show ?thesis by blast
qed

lemma cumsum_length: "length (cumsum acc p) = length p"
  by (induction p arbitrary: acc) simp_all

lemma cumsum_last: "p \<noteq> [] \<Longrightarrow> last (cumsum acc p) = acc + sum_list p"
proof (induction p arbitrary: acc)
  case Nil
  then show ?case by simp
next
  case (Cons x p)
  show ?case
  proof (cases "p = []")
    case True
    then show ?thesis by simp
  next
    case False
    then have "cumsum (acc + x) p \<noteq> []" using cumsum_length [of "acc + x" p] by auto
    with Cons.IH [OF False, of "acc + x"] show ?thesis by (simp add: add.assoc)
  qed
qed

lemma weighted_index_less:
  assumes "valid_p n p" "0 < n" "u < 1"
  shows "weighted_index p u < n"
proof -
  from assms(1) have len: "length p = n" and s: "\<bar>sum_list p - 1\<bar> \<le> 1 / 2 ^ 26"
    by (simp_all add: valid_p_def)
  from len assms(2) have ne: "p \<noteq> []" by auto
  let ?cdf = "cumsum 0 p"
  have cne: "?cdf \<noteq> []" using ne cumsum_length [of 0 p] by auto
  have l: "last ?cdf = sum_list p" using cumsum_last [OF ne, of 0] by simp
  have "\<bar>sum_list p - 1\<bar> < 1" using s by (rule le_less_trans) simp
  then have pos: "0 < sum_list p" by linarith
  let ?n = "map (\<lambda>c. c / last ?cdf) ?cdf"
  have "last ?n = 1" using cne l pos by (simp add: last_map)
  moreover have "last ?n \<in> set ?n" using cne by (intro last_in_set) simp
  ultimately have "\<exists>c\<in>set ?n. \<not> c \<le> u" using assms(3) by (intro bexI [of _ "last ?n"]) simp_all
  then obtain c where "c \<in> set ?n" "\<not> c \<le> u" by blast
  then have "length (filter (\<lambda>c. c \<le> u) ?n) < length ?n" by (rule length_filter_less)
  then show ?thesis
    by (simp add: weighted_index_def searchsorted_right_def cumsum_length len Let_def)
qed

lemma np_choice_p1_total:
  assumes "a \<noteq> []" "valid_p (length a) p"
  shows "\<exists>x s'. np_choice_p1 a p s = Inr (x, s') \<and> x \<in> set a"
proof -
  obtain r s1 where d: "np_draw s = (r, s1)" by (cases "np_draw s")
  have "weighted_index p (unit_float r) < length a"
    using assms unit_float_bounds [of r] by (intro weighted_index_less) simp_all
  then show ?thesis using assms d by (simp add: np_choice_p1_def)
qed

lemma sample_indices_props:
  "n \<le> length pool \<Longrightarrow> sample_indices n pool s = (idx, s') \<Longrightarrow>
     length idx = n \<and> set idx \<subseteq> set pool \<and> (distinct pool \<longrightarrow> distinct idx)"
proof (induction n arbitrary: pool s idx s')
  case 0
  then show ?case by simp
next
  case (Suc n)
  from Suc.prems(1) have ne: "pool \<noteq> []" by auto
  obtain r s1 where d: "np_draw s = (r, s1)" by (cases "np_draw s")
  let ?k = "r mod length pool"
  let ?rest = "take ?k pool @ drop (Suc ?k) pool"
  have k: "?k < length pool" using ne by simp
  obtain js s2 where j: "sample_indices n ?rest s1 = (js, s2)"
    by (cases "sample_indices n ?rest s1")
  have lr: "n \<le> length ?rest" using Suc.prems(1) k by simp
  from Suc.prems(2) ne d j have idx: "idx = pool ! ?k # js" by (simp add: Let_def)
  have sub: "set ?rest \<subseteq> set pool"
    using set_take_subset [of ?k pool] set_drop_subset [of "Suc ?k" pool] by auto
  have pk: "pool = take ?k pool @ pool ! ?k # drop (Suc ?k) pool"
    using k by (rule id_take_nth_drop)
  have dist: "distinct pool \<Longrightarrow> distinct ?rest \<and> pool ! ?k \<notin> set ?rest"
  proof -
    assume "distinct pool"
    then have "distinct (take ?k pool @ pool ! ?k # drop (Suc ?k) pool)" using pk by simp
    then show ?thesis by auto
  qed
  from Suc.IH [OF lr j] have ih: "length js = n" "set js \<subseteq> set ?rest"
    "distinct ?rest \<longrightarrow> distinct js" by simp_all
  show ?case unfolding idx using ih sub k dist by auto
qed

lemma df_sample_total:
  assumes "n \<le> length rws"
  shows "\<exists>idx s'. df_sample n rws s = Inr (map (\<lambda>i. rws ! i) idx, s') \<and> length idx = n \<and>
           distinct idx \<and> (\<forall>i\<in>set idx. i < length rws)"
proof -
  obtain idx s' where i: "sample_indices n [0..<length rws] s = (idx, s')"
    by (cases "sample_indices n [0..<length rws] s")
  from sample_indices_props [OF _ i] assms
  have p: "length idx = n" "distinct idx" "\<forall>i\<in>set idx. i < length rws" by auto
  have "df_sample n rws s = Inr (map (\<lambda>i. rws ! i) idx, s')"
    using assms i by (simp add: df_sample_def)
  with p show ?thesis by blast
qed

subsection \<open>The transaction generator\<close>

lemma valid_p_quantity:
  "valid_p (length [1, 2, 3, 4, 5 :: int]) [7 / 10, 3 / 20, 2 / 25, 1 / 20, 1 / 50]"
  by (simp add: valid_p_def)

lemma transaction_row_total:
  assumes "customers \<noteq> []" "products \<noteq> []" "valid_p (length customers) p"
  shows "\<exists>t s'. transaction_row customers products (Some p) i s = Inr (t, s') \<and>
           txn_customer_id t \<in> customer_id ` set customers \<and>
           txn_product_id t \<in> product_id ` set products \<and>
           transaction_id t = ''TXN_'' @ zero_pad 6 i"
proof -
  have "map customer_id customers \<noteq> []" "valid_p (length (map customer_id customers)) p"
    using assms by simp_all
  from np_choice_p1_total [OF this, of s] obtain cid s1 where
    c: "np_choice_p1 (map customer_id customers) p s = Inr (cid, s1)"
    "cid \<in> customer_id ` set customers"
    by auto
  have "1 \<le> length products" using assms(2) by (cases products) simp_all
  from df_sample_total [OF this, of s1] obtain idx s2 where
    smp: "df_sample 1 products s1 = Inr (map (\<lambda>i. products ! i) idx, s2)"
    "length idx = 1" "\<forall>i\<in>set idx. i < length products"
    by blast
  from smp(2) obtain k where idx: "idx = [k]" by (cases idx) auto
  with smp(3) have k: "k < length products" by simp
  obtain r3 s3 where d3: "py_draw s2 = (r3, s3)" by (cases "py_draw s2")
  obtain r4 s4 where d4: "py_draw s3 = (r4, s4)" by (cases "py_draw s3")
  obtain r5 s5 where d5: "py_draw s4 = (r5, s5)" by (cases "py_draw s4")
  from np_choice_p1_total [OF _ valid_p_quantity, of s5] obtain qty s6 where
    q: "np_choice_p1 [1, 2, 3, 4, 5 :: int] [7 / 10, 3 / 20, 2 / 25, 1 / 20, 1 / 50] s5 = Inr (qty, s6)"
    by auto
  obtain discount s7 where dd: "discount_draw s6 = (discount, s7)" by (cases "discount_draw s6")
  show ?thesis
    using c smp(1) idx k d3 d4 d5 q dd
    by (simp add: transaction_row_def py_randint_def Let_def)
qed

lemma np_choice_p1_error: "np_choice_p1 a p s = Inl e \<Longrightarrow> e = ValueError"
  by (auto simp: np_choice_p1_def split: if_splits prod.splits)

lemma transaction_row_empty:
  assumes "customers = [] \<or> products = []"
  shows "transaction_row customers products w i s = Inl ValueError"
proof (cases w)
  case None
  then show ?thesis by (simp add: transaction_row_def)
next
  case (Some p)
  show ?thesis
  proof (cases "np_choice_p1 (map customer_id customers) p s")
    case (Inl e)
    then show ?thesis using Some np_choice_p1_error [OF Inl] by (simp add: transaction_row_def)
  next
    case (Inr x)
    obtain cid s1 where x: "x = (cid, s1)" by (cases x)
    from Inr have "customers \<noteq> []" by (auto simp: np_choice_p1_def split: if_splits)
    with assms have "products = []" by simp
    then have "df_sample 1 products s1 = Inl ValueError" by (simp add: df_sample_def)
    then show ?thesis using Some Inr x by (simp add: transaction_row_def)
  qed
qed

lemma transactions_loop_total:
  assumes "customers \<noteq> []" "products \<noteq> []" "valid_p (length customers) p"
  shows "\<exists>ts s'. transactions_loop customers products (Some p) is s = Inr (ts, s') \<and>
           length ts = length is \<and>
           (\<forall>t\<in>set ts. txn_customer_id t \<in> customer_id ` set customers \<and>
                         txn_product_id t \<in> product_id ` set products) \<and>
           map transaction_id ts = map (\<lambda>i. ''TXN_'' @ zero_pad 6 i) is"
proof (induction "is" arbitrary: s)
  case Nil
  show ?case by simp
next
  case (Cons i "is")
  from transaction_row_total [OF assms, of i s] obtain t s1 where
    t: "transaction_row customers products (Some p) i s = Inr (t, s1)"
    "txn_customer_id t \<in> customer_id ` set customers"
    "txn_product_id t \<in> product_id ` set products"
    "transaction_id t = ''TXN_'' @ zero_pad 6 i"
    by blast
  from Cons [of s1] obtain ts s2 where
    ts: "transactions_loop customers products (Some p) is s1 = Inr (ts, s2)"
    "length ts = length is"
    "\<forall>t\<in>set ts. txn_customer_id t \<in> customer_id ` set customers \<and>
                  txn_product_id t \<in> product_id ` set products"
    "map transaction_id ts = map (\<lambda>i. ''TXN_'' @ zero_pad 6 i) is"
    by blast
  from t ts show ?case by simp
qed

lemma generate_transactions_weights:
  assumes "customers \<noteq> []" "products \<noteq> []"
    "np_exponential std (3 / 2) (length customers) s = (ws, s1)"
    "list_all (\<lambda>w. 0 \<le> w) ws" "0 < sum_list ws"
  shows "\<exists>ts s'. generate_transactions std g customers products s = Inr (ts, s') \<and>
           length ts = nat (n_transactions g) \<and>
           (\<forall>t\<in>set ts. txn_customer_id t \<in> customer_id ` set customers \<and>
                         txn_product_id t \<in> product_id ` set products)"
proof -
  from np_exponential_props [OF assms(3)] have len: "length ws = length customers" by simp
  from normalise_valid [OF assms(4,5)] obtain p where
    p: "normalise ws = Some p" "valid_p (length customers) p" unfolding len by blast
  from transactions_loop_total [OF assms(1,2) p(2), of "range_py (n_transactions g)" s1]
  obtain ts s' where
    "transactions_loop customers products (Some p) (range_py (n_transactions g)) s1 = Inr (ts, s')"
    "length ts = length (range_py (n_transactions g))"
    "\<forall>t\<in>set ts. txn_customer_id t \<in> customer_id ` set customers \<and>
                  txn_product_id t \<in> product_id ` set products"
    by blast
  then show ?thesis using assms(3) p(1) by (simp add: generate_transactions_def range_py_def)
qed

lemma generate_transactions_total:
  assumes "customers \<noteq> []" "products \<noteq> []" "\<And>r. 0 < std r"
  shows "\<exists>ts s'. generate_transactions std g customers products s = Inr (ts, s') \<and>
           length ts = nat (n_transactions g) \<and>
           (\<forall>t\<in>set ts. txn_customer_id t \<in> customer_id ` set customers \<and>
                         txn_product_id t \<in> product_id ` set products)"
proof -
  obtain ws s1 where w: "np_exponential std (3 / 2) (length customers) s = (ws, s1)"
    by (cases "np_exponential std (3 / 2) (length customers) s")
  from np_exponential_props [OF w] have len: "length ws = length customers"
    and el: "\<forall>w\<in>set ws. \<exists>r. w = 3 / 2 * std r" by simp_all
  from len assms(1) have ne: "ws \<noteq> []" by auto
  have pos: "\<forall>w\<in>set ws. 0 < w"
  proof
    fix x assume "x \<in> set ws"
    with el obtain r where "x = 3 / 2 * std r" by blast
    then show "0 < x" using assms(3) [of r] by simp
  qed
  have "list_all (\<lambda>w. 0 \<le> w) ws" using pos by (auto simp: list_all_iff intro: less_imp_le)
  moreover have "0 < sum_list ws" using ne pos by (rule sum_list_pos_rat)
  ultimately show ?thesis using generate_transactions_weights [OF assms(1,2) w] by blast
qed

lemma generate_transactions_zero_weights:
  assumes "np_exponential std (3 / 2) (length customers) s = (ws, s1)" "sum_list ws = 0"
    "1 \<le> n_transactions g"
  shows "generate_transactions std g customers products s = Inl ValueError"
proof -
  from assms(3) have "0 < nat (n_transactions g)" by simp
  then have "range_py (n_transactions g) = 0 # [1..<nat (n_transactions g)]"
    by (simp add: range_py_def upt_conv_Cons)
  then show ?thesis
    using assms(1,2) by (simp add: generate_transactions_def normalise_def transaction_row_def)
qed

lemma generate_transactions_empty:
  assumes "customers = [] \<or> products = []" "1 \<le> n_transactions g"
  shows "generate_transactions std g customers products s = Inl ValueError"
proof -
  obtain ws s1 where w: "np_exponential std (3 / 2) (length customers) s = (ws, s1)"
    by (cases "np_exponential std (3 / 2) (length customers) s")
  from assms(2) have "0 < nat (n_transactions g)" by simp
  then have "range_py (n_transactions g) = 0 # [1..<nat (n_transactions g)]"
    by (simp add: range_py_def upt_conv_Cons)
  then show ?thesis
    using w transaction_row_empty [OF assms(1)] by (simp add: generate_transactions_def)
qed

lemma transactions_example:
  "generate_transactions (\<lambda>r. of_nat r + 1)
      \<lparr>n_customers = 2, n_products = 2, n_transactions = 2\<rparr>
      [\<lparr>customer_id = ''CUST_00000'', registration_date = DatetimePlus 2022 1 1 0,
         country = ''UK'', segment = ''New''\<rparr>,
       \<lparr>customer_id = ''CUST_00001'', registration_date = DatetimePlus 2022 1 1 1440,
         country = ''USA'', segment = ''VIP''\<rparr>]
      [\<lparr>product_id = ''PROD_00000'', product_name = ''Sports Product 0'',
         category = ''Sports'', price = 425 / 2, cost = 10\<rparr>,
       \<lparr>product_id = ''PROD_00001'', product_name = ''Food & Beverage Product 1'',
         category = ''Food & Beverage'', price = 535 / 100, cost = 2\<rparr>]
      \<lparr>py_tape = [100, 5, 30, 2 ^ 52, 731, 24, 61, 0, 2 ^ 53 - 1],
        np_tape = [1, 2, 2 ^ 52, 1, 2 ^ 53 - 1, 0, 1, 2 ^ 52 + 2 ^ 51]\<rparr> =
   Inr ([\<lparr>transaction_id = ''TXN_000000'', txn_customer_id = ''CUST_00001'',
           txn_product_id = ''PROD_00001'',
           transaction_date = DatetimePlus 2023 1 1 144330, quantity = 5,
           unit_price = 107 / 20, discount_pct = 0, total_amount = 107 / 4\<rparr>,
         \<lparr>transaction_id = ''TXN_000001'', txn_customer_id = ''CUST_00000'',
           txn_product_id = ''PROD_00001'',
           transaction_date = DatetimePlus 2023 1 1 1, quantity = 2,
           unit_price = 107 / 20, discount_pct = 3 / 10, total_amount = 749 / 100\<rparr>],
        \<lparr>py_tape = [], np_tape = []\<rparr>)"
proof -
  have z: "zero_pad 6 0 = ''000000''" "zero_pad 6 (Suc 0) = ''000001''"
    by code_simp+
  show ?thesis
    by (simp add: generate_transactions_def range_py_def upt_rec transaction_row_def
        normalise_def np_choice_p1_def valid_p_def weighted_index_def searchsorted_right_def
        df_sample_def discount_draw_def sampler_defs z)
qed

text \<open>
  Claim C6, as amended. For every T \<ge> 1, with non-empty customer and product tables and
  exponential weights drawn for the customers that are non-negative and not all zero, the
  transaction generator returns without raising exactly T records, each with the
  \<open>customer_id\<close> of a row of the customer table and the \<open>product_id\<close> of a row of
  the product table. Neither the tables nor the weights are checked by the generator:
  with an empty table, or when every drawn weight is 0 so that the division by their sum
  yields NaN, the first weighted choice or the first \<^verbatim>\<open>sample(1)\<close> raises
  ValueError inside the library. NumPy's sampler returns \<open>-log(1 - u)\<close>, which is never
  negative and is 0 for the raw draw u = 0.
\<close>

theorem generate_transactions_foreign_keys:
  assumes "1 \<le> n_transactions g"
    and "np_exponential std (3 / 2) (length customers) s = (ws, s1)"
  shows "(customers \<noteq> [] \<and> products \<noteq> [] \<and> list_all (\<lambda>w. 0 \<le> w) ws \<and> 0 < sum_list ws \<longrightarrow>
            (\<exists>ts s'. generate_transactions std g customers products s = Inr (ts, s') \<and>
                length ts = nat (n_transactions g) \<and>
                (\<forall>t\<in>set ts. txn_customer_id t \<in> customer_id ` set customers \<and>
                              txn_product_id t \<in> product_id ` set products))) \<and>
         (customers = [] \<or> products = [] \<or> sum_list ws = 0 \<longrightarrow>
            generate_transactions std g customers products s = Inl ValueError)"
proof (intro conjI impI)
  assume "customers \<noteq> [] \<and> products \<noteq> [] \<and> list_all (\<lambda>w. 0 \<le> w) ws \<and> 0 < sum_list ws"
  then show "\<exists>ts s'. generate_transactions std g customers products s = Inr (ts, s') \<and>
                length ts = nat (n_transactions g) \<and>
                (\<forall>t\<in>set ts. txn_customer_id t \<in> customer_id ` set customers \<and>
                              txn_product_id t \<in> product_id ` set products)"
    using generate_transactions_weights [OF _ _ assms(2), of products g] by blast
next
  assume a: "customers = [] \<or> products = [] \<or> sum_list ws = 0"
  show "generate_transactions std g customers products s = Inl ValueError"
  proof (cases "customers = [] \<or> products = []")
    case True
    then show ?thesis using assms(1) by (rule generate_transactions_empty)
  next
    case False
    with a have "sum_list ws = 0" by simp
    with assms(2) show ?thesis using assms(1) by (rule generate_transactions_zero_weights)
  qed
qed

theorem generate_transactions_foreign_keys_witness:
  "1 \<le> n_transactions \<lparr>n_customers = 2, n_products = 2, n_transactions = 2\<rparr> \<and>
   np_exponential (\<lambda>r. of_nat r + 1) (3 / 2) 2
      \<lparr>py_tape = [100, 5, 30, 2 ^ 52, 731, 24, 61, 0, 2 ^ 53 - 1],
        np_tape = [1, 2, 2 ^ 52, 1, 2 ^ 53 - 1, 0, 1, 2 ^ 52 + 2 ^ 51]\<rparr> =
     ([3, 9 / 2],
      \<lparr>py_tape = [100, 5, 30, 2 ^ 52, 731, 24, 61, 0, 2 ^ 53 - 1],
        np_tape = [2 ^ 52, 1, 2 ^ 53 - 1, 0, 1, 2 ^ 52 + 2 ^ 51]\<rparr>) \<and>
   list_all (\<lambda>w. 0 \<le> w) [3, 9 / 2 :: rat] \<and> 0 < sum_list [3, 9 / 2 :: rat] \<and>
   (\<exists>ts s'. generate_transactions (\<lambda>r. of_nat r + 1)
      \<lparr>n_customers = 2, n_products = 2, n_transactions = 2\<rparr>
      [\<lparr>customer_id = ''CUST_00000'', registration_date = DatetimePlus 2022 1 1 0,
         country = ''UK'', segment = ''New''\<rparr>,
       \<lparr>customer_id = ''CUST_00001'', registration_date = DatetimePlus 2022 1 1 1440,
         country = ''USA'', segment = ''VIP''\<rparr>]
      [\<lparr>product_id = ''PROD_00000'', product_name = ''Sports Product 0'',
         category = ''Sports'', price = 425 / 2, cost = 10\<rparr>,
       \<lparr>product_id = ''PROD_00001'', product_name = ''Food & Beverage Product 1'',
         category = ''Food & Beverage'', price = 535 / 100, cost = 2\<rparr>]
      \<lparr>py_tape = [100, 5, 30, 2 ^ 52, 731, 24, 61, 0, 2 ^ 53 - 1],
        np_tape = [1, 2, 2 ^ 52, 1, 2 ^ 53 - 1, 0, 1, 2 ^ 52 + 2 ^ 51]\<rparr> = Inr (ts, s') \<and>
      map txn_customer_id ts = [''CUST_00001'', ''CUST_00000''] \<and>
      map txn_product_id ts = [''PROD_00001'', ''PROD_00001''] \<and>
      length ts = 2)"
proof -
  let ?g = "\<lparr>n_customers = 2, n_products = 2, n_transactions = 2\<rparr>"
  let ?std = "\<lambda>r::nat. (of_nat r + 1 :: rat)"
  let ?s = "\<lparr>py_tape = [100, 5, 30, 2 ^ 52, 731, 24, 61, 0, 2 ^ 53 - 1],
        np_tape = [1, 2, 2 ^ 52, 1, 2 ^ 53 - 1, 0, 1, 2 ^ 52 + 2 ^ 51]\<rparr>"
  let ?cs = "[\<lparr>customer_id = ''CUST_00000'', registration_date = DatetimePlus 2022 1 1 0,
         country = ''UK'', segment = ''New''\<rparr>,
       \<lparr>customer_id = ''CUST_00001'', registration_date = DatetimePlus 2022 1 1 1440,
         country = ''USA'', segment = ''VIP''\<rparr>]"
  let ?ps = "[\<lparr>product_id = ''PROD_00000'', product_name = ''Sports Product 0'',
         category = ''Sports'', price = 425 / 2, cost = 10\<rparr>,
       \<lparr>product_id = ''PROD_00001'', product_name = ''Food & Beverage Product 1'',
         category = ''Food & Beverage'', price = 535 / 100, cost = (2::rat)\<rparr>]"
  have h1: "1 \<le> n_transactions ?g" by simp
  have e: "np_exponential ?std (3 / 2) 2 ?s =
     ([3, 9 / 2],
      \<lparr>py_tape = [100, 5, 30, 2 ^ 52, 731, 24, 61, 0, 2 ^ 53 - 1],
        np_tape = [2 ^ 52, 1, 2 ^ 53 - 1, 0, 1, 2 ^ 52 + 2 ^ 51]\<rparr>)"
    by (simp add: numeral_2_eq_2 np_draw_def)
  have "length ?cs = 2" by simp
  with e have h2: "np_exponential ?std (3 / 2) (length ?cs) ?s =
     ([3, 9 / 2],
      \<lparr>py_tape = [100, 5, 30, 2 ^ 52, 731, 24, 61, 0, 2 ^ 53 - 1],
        np_tape = [2 ^ 52, 1, 2 ^ 53 - 1, 0, 1, 2 ^ 52 + 2 ^ 51]\<rparr>)"
    by (simp only:)
  have h3: "list_all (\<lambda>w. 0 \<le> w) [3, 9 / 2 :: rat]" "0 < sum_list [3, 9 / 2 :: rat]" by simp_all
  have h4: "?cs \<noteq> [] \<and> ?ps \<noteq> []" by simp
  from generate_transactions_foreign_keys [OF h1 h2, of ?ps] h3 h4
  have "\<exists>ts s'. generate_transactions ?std ?g ?cs ?ps ?s = Inr (ts, s')" by blast
  then have d: "\<exists>ts s'. generate_transactions ?std ?g ?cs ?ps ?s = Inr (ts, s') \<and>
      map txn_customer_id ts = [''CUST_00001'', ''CUST_00000''] \<and>
      map txn_product_id ts = [''PROD_00001'', ''PROD_00001''] \<and>
      length ts = 2"
    unfolding transactions_example by simp
  from h1 e h3 d show ?thesis by blast
qed

text \<open>
  Claim C6 as stated fails. With one customer, one product and T = 1, when the raw draw
  for the customer's weight is 0 the sampler returns 0 for it, as \<open>-log(1 - 0)\<close> does;
  the only weight is 0, the normalised weight is NaN and the weighted choice raises
  ValueError although both tables are non-empty. This holds for the sampler that is 0 at
  the raw draw 0 and positive elsewhere, and for every other one that is 0 at 0.
\<close>

theorem zero_weight_counterexample:
  "generate_transactions (\<lambda>r. of_nat (r mod 2 ^ 53))
       \<lparr>n_customers = 1, n_products = 1, n_transactions = 1\<rparr>
       [\<lparr>customer_id = ''CUST_00000'', registration_date = DatetimePlus 2022 1 1 0,
          country = ''UK'', segment = ''New''\<rparr>]
       [\<lparr>product_id = ''PROD_00000'', product_name = ''Sports Product 0'',
          category = ''Sports'', price = 425 / 2, cost = 10\<rparr>]
       \<lparr>py_tape = [], np_tape = [0]\<rparr> = Inl ValueError \<and>
   \<not> (\<exists>std. std 0 = 0 \<and>
     generate_transactions std \<lparr>n_customers = 1, n_products = 1, n_transactions = 1\<rparr>
       [\<lparr>customer_id = ''CUST_00000'', registration_date = DatetimePlus 2022 1 1 0,
          country = ''UK'', segment = ''New''\<rparr>]
       [\<lparr>product_id = ''PROD_00000'', product_name = ''Sports Product 0'',
          category = ''Sports'', price = 425 / 2, cost = 10\<rparr>]
       \<lparr>py_tape = [], np_tape = [0]\<rparr> \<noteq> Inl ValueError)"
  by (simp add: generate_transactions_def np_draw_def normalise_def range_py_def upt_rec
      transaction_row_def)

subsection \<open>The quality-issue injector\<close>

lemma np_random_sample_length: "np_random_sample n s = (us, s') \<Longrightarrow> length us = n"
  by (induction n arbitrary: s us s') (auto split: prod.splits)

lemma assign_cells_length: "length (assign_cells m col cs vs) = length vs"
  by (induction m col cs vs rule: assign_cells.induct) simp_all

lemma assign_cells_nth:
  "j < length vs \<Longrightarrow>
     assign_cells m col cs vs ! j = vs ! j \<or>
     ((assign_cells m col cs vs ! j = NaN \<or> assign_cells m col cs vs ! j = upcast (vs ! j)) \<and>
      j < length cs \<and> fst (cs ! j) = col)"
proof (induction m col cs vs arbitrary: j rule: assign_cells.induct)
  case (1 m col c int64 cs v vs)
  show ?case
  proof (cases j)
    case 0
    then show ?thesis by simp
  next
    case (Suc k)
    with "1.prems" have "k < length vs" by simp
    from "1.IH" [OF this] show ?thesis using Suc by simp
  qed
qed simp_all

lemma upcast_idem: "upcast (upcast v) = upcast v"
  by (cases v) simp_all

lemma corrupted_from_refl: "corrupted_from cols rws rws"
  by (simp add: corrupted_from_def)

lemma corrupted_from_trans:
  assumes "corrupted_from cols a b" "corrupted_from cols b c"
  shows "corrupted_from cols a c"
  unfolding corrupted_from_def
proof (intro conjI allI impI)
  show "length c = length a" using assms by (simp add: corrupted_from_def)
next
  fix i assume i: "i < length a"
  then have ib: "i < length b" using assms(1) by (simp add: corrupted_from_def)
  show "length (c ! i) = length (a ! i)" using assms i ib by (simp add: corrupted_from_def)
next
  fix i j assume i: "i < length a" and j: "j < length (a ! i)"
  have ib: "i < length b" using assms(1) i by (simp add: corrupted_from_def)
  have jb: "j < length (b ! i)" using assms(1) i j by (simp add: corrupted_from_def)
  have 1: "b ! i ! j = a ! i ! j \<or>
      ((b ! i ! j = NaN \<or> b ! i ! j = upcast (a ! i ! j)) \<and>
       j < length cols \<and> cols ! j \<notin> set protected_columns)"
    using assms(1) i j by (simp add: corrupted_from_def)
  have 2: "c ! i ! j = b ! i ! j \<or>
      ((c ! i ! j = NaN \<or> c ! i ! j = upcast (b ! i ! j)) \<and>
       j < length cols \<and> cols ! j \<notin> set protected_columns)"
    using assms(2) ib jb by (simp add: corrupted_from_def)
  from 1 2 show "c ! i ! j = a ! i ! j \<or>
      ((c ! i ! j = NaN \<or> c ! i ! j = upcast (a ! i ! j)) \<and>
       j < length cols \<and> cols ! j \<notin> set protected_columns)"
    by (auto simp: upcast_idem)
qed

lemma loc_assign_nan_columns: "columns (loc_assign_nan msk col df) = columns df"
  by (simp add: loc_assign_nan_def)

lemma loc_assign_nan_corrupted:
  assumes "length msk = length (rows df)" "col \<notin> set protected_columns"
  shows "corrupted_from (columns df) (rows df) (rows (loc_assign_nan msk col df))"
  unfolding corrupted_from_def
proof (intro conjI allI impI)
  show "length (rows (loc_assign_nan msk col df)) = length (rows df)"
    using assms(1) by (simp add: loc_assign_nan_def)
next
  fix i assume i: "i < length (rows df)"
  then show "length (rows (loc_assign_nan msk col df) ! i) = length (rows df ! i)"
    using assms(1) by (simp add: loc_assign_nan_def assign_cells_length)
next
  fix i j assume i: "i < length (rows df)" and j: "j < length (rows df ! i)"
  let ?cs = "zip (columns df) (int64_columns df)"
  have r: "rows (loc_assign_nan msk col df) ! i = assign_cells (msk ! i) col ?cs (rows df ! i)"
    using assms(1) i by (simp add: loc_assign_nan_def)
  have l: "length ?cs = length (columns df)" by (simp add: int64_columns_def)
  have f: "fst (?cs ! k) = columns df ! k" if "k < length ?cs" for k
    using that by (simp add: int64_columns_def)
  show "rows (loc_assign_nan msk col df) ! i ! j = rows df ! i ! j \<or>
      ((rows (loc_assign_nan msk col df) ! i ! j = NaN \<or>
        rows (loc_assign_nan msk col df) ! i ! j = upcast (rows df ! i ! j)) \<and>
       j < length (columns df) \<and> columns df ! j \<notin> set protected_columns)"
    using assign_cells_nth [OF j, of "msk ! i" col ?cs] assms(2) f [of j] unfolding r l by auto
qed

lemma missing_loop_props:
  assumes "df_copy < length h" "missing_loop cols missing_rate df_copy h s = (h', s')"
  shows "length h' = length h \<and> (\<forall>a. a \<noteq> df_copy \<longrightarrow> h' ! a = h ! a) \<and>
         columns (h' ! df_copy) = columns (h ! df_copy) \<and>
         corrupted_from (columns (h ! df_copy)) (rows (h ! df_copy)) (rows (h' ! df_copy))"
  using assms
proof (induction cols arbitrary: h s)
  case Nil
  then show ?case by (simp add: corrupted_from_refl)
next
  case (Cons col cols)
  show ?case
  proof (cases "col \<in> set protected_columns")
    case True
    with Cons.prems(2) have "missing_loop cols missing_rate df_copy h s = (h', s')" by simp
    from Cons.IH [OF Cons.prems(1) this] show ?thesis .
  next
    case False
    obtain us s1 where u: "np_random_sample (length (rows (h ! df_copy))) s = (us, s1)"
      by (cases "np_random_sample (length (rows (h ! df_copy))) s")
    let ?msk = "map (\<lambda>u. u < missing_rate) us"
    let ?d = "loc_assign_nan ?msk col (h ! df_copy)"
    let ?h1 = "h[df_copy := ?d]"
    have lm: "length ?msk = length (rows (h ! df_copy))"
      using np_random_sample_length [OF u] by simp
    from Cons.prems(2) False u have m: "missing_loop cols missing_rate df_copy ?h1 s1 = (h', s')"
      by simp
    have l1: "df_copy < length ?h1" using Cons.prems(1) by simp
    have d1: "?h1 ! df_copy = ?d" using Cons.prems(1) by simp
    from Cons.IH [OF l1 m] have ih: "length h' = length ?h1"
      "\<forall>a. a \<noteq> df_copy \<longrightarrow> h' ! a = ?h1 ! a"
      "columns (h' ! df_copy) = columns ?d"
      "corrupted_from (columns ?d) (rows ?d) (rows (h' ! df_copy))"
      unfolding d1 by simp_all
    have c1: "corrupted_from (columns (h ! df_copy)) (rows (h ! df_copy)) (rows ?d)"
      using loc_assign_nan_corrupted [OF lm False] .
    have c2: "corrupted_from (columns (h ! df_copy)) (rows ?d) (rows (h' ! df_copy))"
      using ih(4) by (simp add: loc_assign_nan_columns)
    show ?thesis
      using ih(1,2,3) corrupted_from_trans [OF c1 c2] by (simp add: loc_assign_nan_columns)
  qed
qed

lemma n_duplicates_div: "nat \<lfloor>of_nat n * (1 / 100 :: rat)\<rfloor> = n div 100"
proof -
  have "\<lfloor>(of_nat n :: rat) / of_nat 100\<rfloor> = of_nat (n div 100)"
    by (rule floor_divide_of_nat_eq)
  then show ?thesis by simp
qed

lemma add_data_quality_issues_result:
  assumes "df < length h"
  shows "\<exists>copied idx s'.
    add_data_quality_issues h df missing_rate s =
      Inr (length h + 2,
           h @ [copied, \<lparr>columns = columns copied, rows = map (\<lambda>i. rows copied ! i) idx\<rparr>,
                \<lparr>columns = columns copied, rows = rows copied @ map (\<lambda>i. rows copied ! i) idx\<rparr>],
           s') \<and>
    columns copied = columns (h ! df) \<and>
    corrupted_from (columns (h ! df)) (rows (h ! df)) (rows copied) \<and>
    length idx = length (rows (h ! df)) div 100 \<and> distinct idx \<and>
    (\<forall>i\<in>set idx. i < length (rows (h ! df)))"
proof -
  let ?c = "length h"
  let ?h1 = "h @ [h ! df]"
  obtain h2 s1 where m: "missing_loop (columns (?h1 ! ?c)) missing_rate ?c ?h1 s = (h2, s1)"
    by (cases "missing_loop (columns (?h1 ! ?c)) missing_rate ?c ?h1 s")
  have "?c < length ?h1" by simp
  from missing_loop_props [OF this m]
  have p: "length h2 = Suc (length h)" "\<forall>a. a \<noteq> ?c \<longrightarrow> h2 ! a = ?h1 ! a"
    "columns (h2 ! ?c) = columns (h ! df)"
    "corrupted_from (columns (h ! df)) (rows (h ! df)) (rows (h2 ! ?c))"
    by simp_all
  let ?copied = "h2 ! ?c"
  have h2: "h2 = h @ [?copied]"
  proof (rule nth_equalityI)
    show "length h2 = length (h @ [?copied])" using p(1) by simp
  next
    fix i assume "i < length h2"
    then show "h2 ! i = (h @ [?copied]) ! i"
      using p(1,2) by (cases "i = length h") (simp_all add: nth_append)
  qed
  have len: "length (rows ?copied) = length (rows (h ! df))"
    using p(4) by (simp add: corrupted_from_def)
  let ?n = "nat \<lfloor>of_nat (length (rows ?copied)) * (1 / 100 :: rat)\<rfloor>"
  have n: "?n = length (rows (h ! df)) div 100" unfolding len by (rule n_duplicates_div)
  then have "?n \<le> length (rows ?copied)" using len by simp
  from df_sample_total [OF this, of s1] obtain idx s2 where
    smp: "df_sample ?n (rows ?copied) s1 = Inr (map (\<lambda>i. rows ?copied ! i) idx, s2)"
    "length idx = ?n" "distinct idx" "\<forall>i\<in>set idx. i < length (rows ?copied)"
    by blast
  have "add_data_quality_issues h df missing_rate s =
      Inr (length h + 2,
           h @ [?copied, \<lparr>columns = columns ?copied, rows = map (\<lambda>i. rows ?copied ! i) idx\<rparr>,
                \<lparr>columns = columns ?copied,
                 rows = rows ?copied @ map (\<lambda>i. rows ?copied ! i) idx\<rparr>],
           s2)"
    unfolding add_data_quality_issues_def Let_def m prod.case smp(1) sum.case
    by (subst (1 2 3 4 5 6 7) h2) (simp add: nth_append)
  with p(3,4) smp(2,3,4) n len show ?thesis by metis
qed


lemma injector_example:
  "add_data_quality_issues
     [\<lparr>columns = [''transaction_id'', ''quantity'', ''unit_price''],
       rows = [[StrV ''TXN_000000'', IntV 1, FltV 5], [StrV ''TXN_000001'', IntV 2, FltV 7]]\<rparr>]
     0 (1 / 50) \<lparr>py_tape = [], np_tape = [0, 2 ^ 52, 2 ^ 52, 0]\<rparr> =
   Inr (3,
     [\<lparr>columns = [''transaction_id'', ''quantity'', ''unit_price''],
       rows = [[StrV ''TXN_000000'', IntV 1, FltV 5], [StrV ''TXN_000001'', IntV 2, FltV 7]]\<rparr>,
      \<lparr>columns = [''transaction_id'', ''quantity'', ''unit_price''],
       rows = [[StrV ''TXN_000000'', NaN, FltV 5], [StrV ''TXN_000001'', FltV 2, NaN]]\<rparr>,
      \<lparr>columns = [''transaction_id'', ''quantity'', ''unit_price''], rows = []\<rparr>,
      \<lparr>columns = [''transaction_id'', ''quantity'', ''unit_price''],
       rows = [[StrV ''TXN_000000'', NaN, FltV 5], [StrV ''TXN_000001'', FltV 2, NaN]]\<rparr>],
     \<lparr>py_tape = [], np_tape = []\<rparr>)"
  by (simp add: add_data_quality_issues_def protected_columns_def loc_assign_nan_def
      int64_columns_def int64_column_def upt_rec
      df_sample_def np_draw_def unit_float_def Let_def floor_divide_numeral_rat)



text \<open>
  Claim C9. The injector leaves its input table unmodified: after the call the object
  the input reference points to is what it was before, and so is every other object that
  existed before the call; the returned table is a new object.
\<close>

theorem add_data_quality_issues_input_unmodified:
  assumes "df < length h" "add_data_quality_issues h df missing_rate s = Inr (res, h', s')"
  shows "h' ! df = h ! df \<and> take (length h) h' = h \<and> length h \<le> res \<and> res < length h'"
proof -
  from add_data_quality_issues_result [OF assms(1), of missing_rate s] assms(2)
  obtain x y z where "h' = h @ [x, y, z]" "res = length h + 2" by auto
  then show ?thesis using assms(1) by (simp add: nth_append)
qed

theorem add_data_quality_issues_input_unmodified_witness:
  "(0::nat) < length [\<lparr>columns = [''transaction_id'', ''quantity'', ''unit_price''],
       rows = [[StrV ''TXN_000000'', IntV 1, FltV 5], [StrV ''TXN_000001'', IntV 2, FltV 7]]\<rparr>] \<and>
   (\<exists>res h' s'. add_data_quality_issues
     [\<lparr>columns = [''transaction_id'', ''quantity'', ''unit_price''],
       rows = [[StrV ''TXN_000000'', IntV 1, FltV 5], [StrV ''TXN_000001'', IntV 2, FltV 7]]\<rparr>]
     0 (1 / 50) \<lparr>py_tape = [], np_tape = [0, 2 ^ 52, 2 ^ 52, 0]\<rparr> = Inr (res, h', s') \<and>
     h' ! 0 = \<lparr>columns = [''transaction_id'', ''quantity'', ''unit_price''],
       rows = [[StrV ''TXN_000000'', IntV 1, FltV 5], [StrV ''TXN_000001'', IntV 2, FltV 7]]\<rparr> \<and>
     rows (h' ! res) = [[StrV ''TXN_000000'', NaN, FltV 5], [StrV ''TXN_000001'', FltV 2, NaN]])"
  using add_data_quality_issues_input_unmodified [OF _ injector_example] injector_example
  by simp




subsection \<open>The constructor and counts that are not positive\<close>

lemma generate_customers_zero:
  assumes "n_customers g = 0"
  shows "generate_customers g s = Inr ([], s)"
  using assms valid_p_segments
  by (simp add: generate_customers_def range_py_def np_choice_def np_choice_p_def)

lemma generate_customers_negative:
  assumes "n_customers g < 0"
  shows "generate_customers g s = Inl ValueError"
  using assms by (simp add: generate_customers_def range_py_def np_choice_def)

lemma generate_products_nonpositive:
  assumes "n_products g \<le> 0"
  shows "generate_products g s = Inr ([], s)"
  using assms by (simp add: generate_products_def range_py_def)

lemma generate_transactions_nonpositive:
  assumes "n_transactions g \<le> 0"
  shows "\<exists>s'. generate_transactions std g cs ps s = Inr ([], s')"
  using assms by (simp add: generate_transactions_def range_py_def split: prod.splits)

text \<open>
  Claim C3, as amended. The constructor has no check: it accepts every triple of counts,
  also counts that are zero or negative, and stores them as given. What follows is not a
  rejection at entry: with a product or transaction count \<le> 0 the generators return
  empty tables, with a customer count of 0 the customer table is empty, and with a
  negative customer count \<^verbatim>\<open>np.random.choice\<close> raises ValueError inside
  \<open>generate_customers\<close>.
\<close>

theorem constructor_accepts_any_counts:
  "\<exists>g. EcommerceDataGenerator nc np nt = Inr g \<and>
     n_customers g = nc \<and> n_products g = np \<and> n_transactions g = nt \<and>
     (nc \<le> 0 \<longrightarrow> generate_customers g s = (if nc = 0 then Inr ([], s) else Inl ValueError)) \<and>
     (np \<le> 0 \<longrightarrow> generate_products g s = Inr ([], s)) \<and>
     (nt \<le> 0 \<longrightarrow> (\<exists>s'. generate_transactions std g cs ps s = Inr ([], s')))"
proof -
  let ?g = "\<lparr>n_customers = nc, n_products = np, n_transactions = nt\<rparr>"
  have "EcommerceDataGenerator nc np nt = Inr ?g" by (simp add: EcommerceDataGenerator_def)
  moreover have "nc \<le> 0 \<longrightarrow> generate_customers ?g s = (if nc = 0 then Inr ([], s) else Inl ValueError)"
    using generate_customers_zero [of ?g s] generate_customers_negative [of ?g s] by auto
  moreover have "np \<le> 0 \<longrightarrow> generate_products ?g s = Inr ([], s)"
    using generate_products_nonpositive [of ?g s] by simp
  moreover have "nt \<le> 0 \<longrightarrow> (\<exists>s'. generate_transactions std ?g cs ps s = Inr ([], s'))"
    using generate_transactions_nonpositive [of ?g std cs ps s] by simp
  ultimately show ?thesis by simp
qed

theorem constructor_accepts_any_counts_witness:
  "(0::int) \<le> 0 \<and> (-3::int) \<le> 0 \<and>
   EcommerceDataGenerator 0 (-3) 0 = Inr \<lparr>n_customers = 0, n_products = -3, n_transactions = 0\<rparr> \<and>
   generate_customers \<lparr>n_customers = 0, n_products = -3, n_transactions = 0\<rparr>
      \<lparr>py_tape = [1], np_tape = [2]\<rparr> = Inr ([], \<lparr>py_tape = [1], np_tape = [2]\<rparr>) \<and>
   generate_products \<lparr>n_customers = 0, n_products = -3, n_transactions = 0\<rparr>
      \<lparr>py_tape = [1], np_tape = [2]\<rparr> = Inr ([], \<lparr>py_tape = [1], np_tape = [2]\<rparr>) \<and>
   (\<exists>s'. generate_transactions (\<lambda>r. 1) \<lparr>n_customers = 0, n_products = -3, n_transactions = 0\<rparr>
      [] [] \<lparr>py_tape = [1], np_tape = [2]\<rparr> = Inr ([], s'))"
  using constructor_accepts_any_counts [of 0 "-3" 0 "\<lparr>py_tape = [1], np_tape = [2]\<rparr>" "\<lambda>r. 1" "[]" "[]"]
  by (auto simp: EcommerceDataGenerator_def)

text \<open>Claim C3 as stated fails: a generator with a customer count of 0 and one with a
  negative transaction count are constructed, no error is returned.\<close>

theorem constructor_rejects_counterexample:
  "EcommerceDataGenerator 0 100 5000 =
     Inr \<lparr>n_customers = 0, n_products = 100, n_transactions = 5000\<rparr> \<and>
   EcommerceDataGenerator 1000 100 (-1) =
     Inr \<lparr>n_customers = 1000, n_products = 100, n_transactions = -1\<rparr>"
  by (simp add: EcommerceDataGenerator_def)

subsection \<open>The orchestrator\<close>

lemma path_suffix:
  assumes "d @ a = d' @ b" "5 \<le> length a" "5 \<le> length b"
  shows "take 5 (rev a) = take 5 (rev b)"
proof -
  from assms(1) have "rev (d @ a) = rev (d' @ b)" by simp
  then have "take 5 (rev a @ rev d) = take 5 (rev b @ rev d')" by simp
  then show ?thesis using assms(2,3) by simp
qed

lemma clean_raw_paths_differ:
  "c @ ''/customers.csv'' \<noteq> r @ ''/customers_raw.csv''"
  "c @ ''/customers.csv'' \<noteq> r @ ''/products_raw.csv''"
  "c @ ''/customers.csv'' \<noteq> r @ ''/transactions_raw.csv''"
  "c @ ''/products.csv'' \<noteq> r @ ''/customers_raw.csv''"
  "c @ ''/products.csv'' \<noteq> r @ ''/products_raw.csv''"
  "c @ ''/products.csv'' \<noteq> r @ ''/transactions_raw.csv''"
  "c @ ''/transactions.csv'' \<noteq> r @ ''/customers_raw.csv''"
  "c @ ''/transactions.csv'' \<noteq> r @ ''/products_raw.csv''"
  "c @ ''/transactions.csv'' \<noteq> r @ ''/transactions_raw.csv''"
  by (auto dest!: path_suffix)

lemma to_csv_Inr:
  "to_csv df d name fs = Inr fs' \<Longrightarrow>
     d \<in> dirs fs \<and> fs' = fs\<lparr>files := (files fs)(d @ ''/'' @ name \<mapsto> df)\<rparr>"
  by (auto simp: to_csv_def split: if_splits)

lemma makedirs_Inr: "makedirs d fs = Inr fs' \<Longrightarrow> files fs' = files fs"
  by (auto simp: makedirs_def split: if_splits)

lemma add_data_quality_issues_store:
  assumes "df < length h" "add_data_quality_issues h df missing_rate s = Inr (res, h', s')"
  shows "take (length h) h' = h \<and> res < length h' \<and>
         length (rows (h' ! res)) = length (rows (h ! df)) + length (rows (h ! df)) div 100"
proof -
  from add_data_quality_issues_result [OF assms(1), of missing_rate s] assms(2)
  obtain copied idx where
    r: "res = length h + 2"
       "h' = h @ [copied, \<lparr>columns = columns copied, rows = map (\<lambda>i. rows copied ! i) idx\<rparr>,
                \<lparr>columns = columns copied, rows = rows copied @ map (\<lambda>i. rows copied ! i) idx\<rparr>]"
    and c: "corrupted_from (columns (h ! df)) (rows (h ! df)) (rows copied)"
    and i: "length idx = length (rows (h ! df)) div 100"
    by auto
  have "length (rows copied) = length (rows (h ! df))" using c by (simp add: corrupted_from_def)
  then show ?thesis unfolding r using i by (simp add: nth_append)
qed

lemma generate_all_written:
  assumes "generate_all std g output_dir clean_dir h fs s = Inr (h', fs', s')"
  shows "\<exists>cs ps ts s1 s2 s3 res.
     generate_customers g s = Inr (cs, s1) \<and>
     generate_products g s1 = Inr (ps, s2) \<and>
     generate_transactions std g cs ps s2 = Inr (ts, s3) \<and>
     add_data_quality_issues (h @ [customers_frame cs, products_frame ps, transactions_frame ts])
       (length h + 2) (1 / 50) s3 = Inr (res, h', s') \<and>
     files fs' (clean_dir @ ''/customers.csv'') = Some (customers_frame cs) \<and>
     files fs' (clean_dir @ ''/products.csv'') = Some (products_frame ps) \<and>
     files fs' (clean_dir @ ''/transactions.csv'') = Some (transactions_frame ts) \<and>
     files fs' (output_dir @ ''/customers_raw.csv'') = Some (customers_frame cs) \<and>
     files fs' (output_dir @ ''/products_raw.csv'') = Some (products_frame ps) \<and>
     files fs' (output_dir @ ''/transactions_raw.csv'') = Some (h' ! res)"
proof -
  from assms obtain fs1 where m1: "makedirs output_dir fs = Inr fs1"
    by (cases "makedirs output_dir fs") (auto simp: generate_all_def)
  from assms m1 obtain fs2 where m2: "makedirs clean_dir fs1 = Inr fs2"
    by (cases "makedirs clean_dir fs1") (auto simp: generate_all_def)
  from assms m1 m2 obtain cs s1 where c: "generate_customers g s = Inr (cs, s1)"
    by (cases "generate_customers g s") (auto simp: generate_all_def Let_def)
  from assms m1 m2 c obtain ps s2 where p: "generate_products g s1 = Inr (ps, s2)"
    by (cases "generate_products g s1") (auto simp: generate_all_def Let_def)
  from assms m1 m2 c p obtain ts s3 where t: "generate_transactions std g cs ps s2 = Inr (ts, s3)"
    by (cases "generate_transactions std g cs ps s2") (auto simp: generate_all_def Let_def)
  let ?cf = "customers_frame cs" and ?pf = "products_frame ps" and ?tf = "transactions_frame ts"
  let ?h1 = "h @ [?cf, ?pf, ?tf]"
  have h1: "?h1 ! length h = ?cf" "?h1 ! (length h + 1) = ?pf" "?h1 ! (length h + 2) = ?tf"
    by (simp_all add: nth_append)
  note a = assms [unfolded generate_all_def Let_def m1 m2 c p t sum.case prod.case h1]
  from a obtain fs3 where w3: "to_csv ?cf clean_dir ''customers.csv'' fs2 = Inr fs3"
    by (cases "to_csv ?cf clean_dir ''customers.csv'' fs2") auto
  note a = a [unfolded w3 sum.case]
  from a obtain fs4 where w4: "to_csv ?pf clean_dir ''products.csv'' fs3 = Inr fs4"
    by (cases "to_csv ?pf clean_dir ''products.csv'' fs3") auto
  note a = a [unfolded w4 sum.case]
  from a obtain fs5 where w5: "to_csv ?tf clean_dir ''transactions.csv'' fs4 = Inr fs5"
    by (cases "to_csv ?tf clean_dir ''transactions.csv'' fs4") auto
  note a = a [unfolded w5 sum.case]
  from a obtain res h2 s4 where
    q: "add_data_quality_issues ?h1 (length h + 2) (1 / 50) s3 = Inr (res, h2, s4)"
    by (cases "add_data_quality_issues ?h1 (length h + 2) (1 / 50) s3") auto
  note a = a [unfolded q sum.case prod.case]
  have "length h + 2 < length ?h1" by simp
  from add_data_quality_issues_store [OF this q] have tk: "take (length ?h1) h2 = ?h1" by simp
  have "h2 ! length h = take (length ?h1) h2 ! length h" by simp
  then have r1: "h2 ! length h = ?cf" unfolding tk by (simp add: nth_append)
  have "h2 ! (length h + 1) = take (length ?h1) h2 ! (length h + 1)" by simp
  then have r2: "h2 ! (length h + 1) = ?pf" unfolding tk by (simp add: nth_append)
  note a = a [unfolded r1 r2]
  from a obtain fs6 where w6: "to_csv ?cf output_dir ''customers_raw.csv'' fs5 = Inr fs6"
    by (cases "to_csv ?cf output_dir ''customers_raw.csv'' fs5") auto
  note a = a [unfolded w6 sum.case]
  from a obtain fs7 where w7: "to_csv ?pf output_dir ''products_raw.csv'' fs6 = Inr fs7"
    by (cases "to_csv ?pf output_dir ''products_raw.csv'' fs6") auto
  note a = a [unfolded w7 sum.case]
  from a obtain fs8 where w8: "to_csv (h2 ! res) output_dir ''transactions_raw.csv'' fs7 = Inr fs8"
    by (cases "to_csv (h2 ! res) output_dir ''transactions_raw.csv'' fs7") auto
  note a = a [unfolded w8 sum.case]
  from a have e: "h' = h2" "fs' = fs8" "s' = s4" by simp_all
  note u = to_csv_Inr [OF w3] to_csv_Inr [OF w4] to_csv_Inr [OF w5] to_csv_Inr [OF w6]
    to_csv_Inr [OF w7] to_csv_Inr [OF w8]
  have f: "files fs8 = (files fs2)
      (clean_dir @ ''/customers.csv'' \<mapsto> ?cf, clean_dir @ ''/products.csv'' \<mapsto> ?pf,
       clean_dir @ ''/transactions.csv'' \<mapsto> ?tf, output_dir @ ''/customers_raw.csv'' \<mapsto> ?cf,
       output_dir @ ''/products_raw.csv'' \<mapsto> ?pf,
       output_dir @ ''/transactions_raw.csv'' \<mapsto> h2 ! res)"
    using u by simp
  have "files fs' (clean_dir @ ''/customers.csv'') = Some ?cf"
    "files fs' (clean_dir @ ''/products.csv'') = Some ?pf"
    "files fs' (clean_dir @ ''/transactions.csv'') = Some ?tf"
    "files fs' (output_dir @ ''/customers_raw.csv'') = Some ?cf"
    "files fs' (output_dir @ ''/products_raw.csv'') = Some ?pf"
    "files fs' (output_dir @ ''/transactions_raw.csv'') = Some (h' ! res)"
    unfolding e f using clean_raw_paths_differ by simp_all
  with c p t q e show ?thesis by blast
qed

lemma generate_all_total:
  assumes "1 \<le> n_customers g" "1 \<le> n_products g" "\<And>r. 0 < std r"
  shows "\<exists>h' fs' s'. generate_all std g ''data/raw'' ''data/processed'' h
           \<lparr>dirs = {}, files = \<lambda>p. None\<rparr> s = Inr (h', fs', s')"
proof -
  have m1: "makedirs ''data/raw'' \<lparr>dirs = {}, files = \<lambda>p. None\<rparr> =
      Inr \<lparr>dirs = {''data/raw'', ''data''}, files = \<lambda>p. None\<rparr>"
    by (simp add: makedirs_def)
  have m2: "makedirs ''data/processed'' \<lparr>dirs = {''data/raw'', ''data''}, files = \<lambda>p. None\<rparr> =
      Inr \<lparr>dirs = {''data/raw'', ''data'', ''data/processed''}, files = \<lambda>p. None\<rparr>"
    by (auto simp: makedirs_def)
  from assms(1) have "0 \<le> n_customers g" by simp
  from generate_customers_ids [OF this, of s] obtain cs s1 where
    c: "generate_customers g s = Inr (cs, s1)" and
    ids: "map customer_id cs = map (\<lambda>i. ''CUST_'' @ zero_pad 5 i) [0..<nat (n_customers g)]"
    by blast
  from ids have "length (map customer_id cs) = length [0..<nat (n_customers g)]"
    by (simp only: length_map)
  with assms(1) have cne: "cs \<noteq> []" by auto
  from generate_products_total [of g s1] obtain ps s2 where
    p: "generate_products g s1 = Inr (ps, s2)" and "length ps = nat (n_products g)"
    by blast
  with assms(2) have pne: "ps \<noteq> []" by auto
  have "\<exists>ts s3. generate_transactions std g cs ps s2 = Inr (ts, s3)"
    using generate_transactions_total
      [where std = std and customers = cs and products = ps and g = g and s = s2]
      cne pne assms(3)
    by blast
  then obtain ts s3 where t: "generate_transactions std g cs ps s2 = Inr (ts, s3)"
    by blast
  let ?h1 = "h @ [customers_frame cs, products_frame ps, transactions_frame ts]"
  have "length h + 2 < length ?h1" by simp
  from add_data_quality_issues_result [OF this, of "1 / 50" s3] obtain res h2 s4 where
    q: "add_data_quality_issues ?h1 (length h + 2) (1 / 50) s3 = Inr (res, h2, s4)"
    by blast
  then have q': "add_data_quality_issues ?h1 (Suc (Suc (length h))) (1 / 50) s3 = Inr (res, h2, s4)"
    by simp
  show ?thesis
    by (simp add: generate_all_def Let_def m1 m2 c p t q' to_csv_def)
qed

text \<open>
  Claim C1, as amended. The orchestrator writes a clean set holding the three generated
  tables uncorrupted, and a raw set in which only the transactions table has been passed
  through the Quality-Issue Injector (at the default rate 0.02); the raw customers and
  raw products files hold the same uncorrupted tables as the clean files.
\<close>

theorem generate_all_files:
  assumes "generate_all std g output_dir clean_dir h fs s = Inr (h', fs', s')"
  shows "\<exists>cs ps ts s1 s2 s3 res.
     generate_customers g s = Inr (cs, s1) \<and>
     generate_products g s1 = Inr (ps, s2) \<and>
     generate_transactions std g cs ps s2 = Inr (ts, s3) \<and>
     add_data_quality_issues (h @ [customers_frame cs, products_frame ps, transactions_frame ts])
       (length h + 2) (1 / 50) s3 = Inr (res, h', s') \<and>
     files fs' (clean_dir @ ''/customers.csv'') = Some (customers_frame cs) \<and>
     files fs' (clean_dir @ ''/products.csv'') = Some (products_frame ps) \<and>
     files fs' (clean_dir @ ''/transactions.csv'') = Some (transactions_frame ts) \<and>
     files fs' (output_dir @ ''/customers_raw.csv'') = Some (customers_frame cs) \<and>
     files fs' (output_dir @ ''/products_raw.csv'') = Some (products_frame ps) \<and>
     files fs' (output_dir @ ''/transactions_raw.csv'') = Some (h' ! res)"
  using assms by (rule generate_all_written)

theorem generate_all_files_witness:
  "\<exists>h' fs' s'.
     generate_all (\<lambda>r. 1) \<lparr>n_customers = 10, n_products = 5, n_transactions = 20\<rparr>
       ''data/raw'' ''data/processed'' [] \<lparr>dirs = {}, files = \<lambda>p. None\<rparr>
       \<lparr>py_tape = [], np_tape = []\<rparr> = Inr (h', fs', s') \<and>
     files fs' ''data/raw/customers_raw.csv'' = files fs' ''data/processed/customers.csv'' \<and>
     files fs' ''data/raw/products_raw.csv'' = files fs' ''data/processed/products.csv'' \<and>
     files fs' ''data/processed/customers.csv'' \<noteq> None \<and>
     files fs' ''data/processed/products.csv'' \<noteq> None \<and>
     files fs' ''data/processed/transactions.csv'' \<noteq> None \<and>
     files fs' ''data/raw/transactions_raw.csv'' \<noteq> None"
proof -
  let ?g = "\<lparr>n_customers = 10, n_products = 5, n_transactions = 20\<rparr>"
  have "1 \<le> n_customers ?g" "1 \<le> n_products ?g" "\<And>r::nat. (0::rat) < 1" by simp_all
  from generate_all_total [of ?g "\<lambda>r. 1", OF this] obtain h' fs' s' where
    r: "generate_all (\<lambda>r. 1) ?g ''data/raw'' ''data/processed'' []
          \<lparr>dirs = {}, files = \<lambda>p. None\<rparr> \<lparr>py_tape = [], np_tape = []\<rparr> = Inr (h', fs', s')"
    by blast
  from generate_all_files [OF r] have
    "files fs' (''data/raw'' @ ''/customers_raw.csv'') = files fs' (''data/processed'' @ ''/customers.csv'')"
    "files fs' (''data/raw'' @ ''/products_raw.csv'') = files fs' (''data/processed'' @ ''/products.csv'')"
    "files fs' (''data/processed'' @ ''/customers.csv'') \<noteq> None"
    "files fs' (''data/processed'' @ ''/products.csv'') \<noteq> None"
    "files fs' (''data/processed'' @ ''/transactions.csv'') \<noteq> None"
    "files fs' (''data/raw'' @ ''/transactions_raw.csv'') \<noteq> None"
    by (metis option.distinct(1))+
  then show ?thesis using r by (intro exI [of _ h'] exI [of _ fs'] exI [of _ s']) simp
qed

text \<open>
  Claim C1 as stated fails. With 100 customers the raw customers file is the clean
  customers table itself, 100 rows, whereas the injector applied to that table returns
  101 rows whatever the rate and the random draws: the file is not an injector output.
\<close>

theorem raw_customers_not_injected_counterexample:
  "\<exists>h' fs' s' df.
     generate_all (\<lambda>r. 1) \<lparr>n_customers = 100, n_products = 1, n_transactions = 1\<rparr>
       ''data/raw'' ''data/processed'' [] \<lparr>dirs = {}, files = \<lambda>p. None\<rparr>
       \<lparr>py_tape = [], np_tape = []\<rparr> = Inr (h', fs', s') \<and>
     files fs' ''data/processed/customers.csv'' = Some df \<and>
     files fs' ''data/raw/customers_raw.csv'' = Some df \<and>
     length (rows df) = 100 \<and>
     (\<forall>rate t res hq t'. add_data_quality_issues [df] 0 rate t = Inr (res, hq, t')
          \<longrightarrow> length (rows (hq ! res)) = 101)"
proof -
  let ?g = "\<lparr>n_customers = 100, n_products = 1, n_transactions = 1\<rparr>"
  have "1 \<le> n_customers ?g" "1 \<le> n_products ?g" "\<And>r::nat. (0::rat) < 1" by simp_all
  from generate_all_total [of ?g "\<lambda>r. 1", OF this] obtain h' fs' s' where
    r: "generate_all (\<lambda>r. 1) ?g ''data/raw'' ''data/processed'' []
          \<lparr>dirs = {}, files = \<lambda>p. None\<rparr> \<lparr>py_tape = [], np_tape = []\<rparr> = Inr (h', fs', s')"
    by blast
  from generate_all_written [OF r] obtain cs s1 where
    c: "generate_customers ?g \<lparr>py_tape = [], np_tape = []\<rparr> = Inr (cs, s1)" and
    f: "files fs' (''data/processed'' @ ''/customers.csv'') = Some (customers_frame cs)"
       "files fs' (''data/raw'' @ ''/customers_raw.csv'') = Some (customers_frame cs)"
    by blast
  have "0 \<le> n_customers ?g" by simp
  from generate_customers_ids [OF this, of "\<lparr>py_tape = [], np_tape = []\<rparr>"] c
  have "map customer_id cs = map (\<lambda>i. ''CUST_'' @ zero_pad 5 i) [0..<nat (n_customers ?g)]"
    by simp
  then have "length (map customer_id cs) = length [0..<nat (n_customers ?g)]"
    by (simp only: length_map)
  then have len: "length (rows (customers_frame cs)) = 100" by (simp add: customers_frame_def)
  have inj: "length (rows (hq ! res)) = 101"
    if "add_data_quality_issues [customers_frame cs] 0 rate t = Inr (res, hq, t')"
    for rate t res hq t'
  proof -
    have "0 < length [customers_frame cs]" by simp
    from add_data_quality_issues_store [OF this that] show ?thesis using len by simp
  qed
  show ?thesis
    using r f len inj
    by (intro exI [of _ h'] exI [of _ fs'] exI [of _ s'] exI [of _ "customers_frame cs"]) simp
qed

end
